theory Spec2Isabelle
  imports Complex_Main "HOL-Library.Sublist"
begin

section \<open>Python strings\<close>

text \<open>
  A Python string is a sequence of Unicode code points. A string written in ASCII is
  entered with \<open>ascii\<close>. Python takes the case mappings, the printable characters and
  the decimal digits from the Unicode database of its runtime: these tables are a
  parameter \<open>ud\<close> of every function that needs them. What Python does on ASCII
  characters and on white space is written out.
\<close>

type_synonym ustring = "nat list"

definition ascii :: "string \<Rightarrow> ustring" where
  "ascii s = map of_char s"

record unicode_data =
  ud_lower :: "nat \<Rightarrow> ustring"
    \<comment> \<open>the full lower-case mapping of a code point above 127 that is not white space\<close>
  ud_final_sigma :: "ustring \<Rightarrow> ustring \<Rightarrow> bool"
    \<comment> \<open>whether a capital sigma between these two texts ends a word\<close>
  ud_printable :: "nat \<Rightarrow> bool"
    \<comment> \<open>\<open>str.isprintable\<close> on a code point above 127\<close>
  ud_decimal :: "nat \<Rightarrow> nat option"
    \<comment> \<open>the value of a decimal digit above 127\<close>

definition is_upper :: "nat \<Rightarrow> bool" where
  "is_upper c = (65 \<le> c \<and> c \<le> 90)"

definition is_lower :: "nat \<Rightarrow> bool" where
  "is_lower c = (97 \<le> c \<and> c \<le> 122)"

definition is_digit :: "nat \<Rightarrow> bool" where
  "is_digit c = (48 \<le> c \<and> c \<le> 57)"

definition is_alnum :: "nat \<Rightarrow> bool" where
  \<comment> \<open>the character class \<open>[A-Za-z0-9]\<close>\<close>
  "is_alnum c = (is_upper c \<or> is_lower c \<or> is_digit c)"

definition is_space :: "nat \<Rightarrow> bool" where
  \<comment> \<open>\<open>str.isspace\<close> on one character, which is what \<open>str.strip()\<close> removes\<close>
  "is_space c =
     ((9 \<le> c \<and> c \<le> 13) \<or> (28 \<le> c \<and> c \<le> 32) \<or> c = 0x85 \<or> c = 0xA0 \<or> c = 0x1680
      \<or> (0x2000 \<le> c \<and> c \<le> 0x200A) \<or> c = 0x2028 \<or> c = 0x2029 \<or> c = 0x202F
      \<or> c = 0x205F \<or> c = 0x3000)"

definition lower_char :: "unicode_data \<Rightarrow> nat \<Rightarrow> ustring" where
  \<comment> \<open>a character other than capital sigma: ASCII letters fold, white space has no case\<close>
  "lower_char ud c =
     (if c < 128 then [if is_upper c then c + 32 else c]
      else if is_space c then [c]
      else ud_lower ud c)"

definition lower_at :: "unicode_data \<Rightarrow> ustring \<Rightarrow> nat \<Rightarrow> ustring \<Rightarrow> ustring" where
  \<comment> \<open>capital sigma becomes final or medial small sigma, by what stands around it\<close>
  "lower_at ud before c after =
     (if c = 0x3A3 then [if ud_final_sigma ud before after then 0x3C2 else 0x3C3]
      else lower_char ud c)"

fun lower_from :: "unicode_data \<Rightarrow> ustring \<Rightarrow> ustring \<Rightarrow> ustring" where
  "lower_from ud before [] = []"
| "lower_from ud before (c # cs) = lower_at ud before c cs @ lower_from ud (before @ [c]) cs"

definition py_lower :: "unicode_data \<Rightarrow> ustring \<Rightarrow> ustring" where
  \<comment> \<open>\<open>s.lower()\<close>\<close>
  "py_lower ud s = lower_from ud [] s"

definition strip_where :: "(nat \<Rightarrow> bool) \<Rightarrow> ustring \<Rightarrow> ustring" where
  "strip_where P s = rev (dropWhile P (rev (dropWhile P s)))"

definition py_strip :: "ustring \<Rightarrow> ustring" where
  \<comment> \<open>\<open>s.strip()\<close>\<close>
  "py_strip s = strip_where is_space s"

definition py_strip_chars :: "ustring \<Rightarrow> ustring \<Rightarrow> ustring" where
  \<comment> \<open>\<open>s.strip(chars)\<close>\<close>
  "py_strip_chars chars s = strip_where (\<lambda>c. c \<in> set chars) s"

section \<open>File name sanitising\<close>

text \<open>
  \<open>re.sub(r"[^A-Za-z0-9]+", "_", s)\<close>: scanning from the left, every maximal run of
  characters outside the class is replaced by one underscore (code point 95).
\<close>

function sub_non_alnum_runs :: "ustring \<Rightarrow> ustring" where
  "sub_non_alnum_runs [] = []"
| "sub_non_alnum_runs (c # cs) =
     (if is_alnum c then c # sub_non_alnum_runs cs
      else 95 # sub_non_alnum_runs (dropWhile (\<lambda>x. \<not> is_alnum x) cs))"
  by pat_completeness auto
termination
  by (relation "measure length") (auto simp: length_dropWhile_le less_Suc_eq_le)

definition sanitize_filename_component :: "unicode_data \<Rightarrow> ustring \<Rightarrow> ustring" where
  "sanitize_filename_component ud name =
     (let s = py_strip_chars (ascii ''_'') (sub_non_alnum_runs (py_lower ud (py_strip name)))
      in if s \<noteq> [] then s else ascii ''team'')"

text \<open>
  The specification's wording, independently of the code: the lower-cased name is cut
  into its maximal alphanumeric words, the words are joined by single underscores, and
  a name without any word yields the token \<open>team\<close>.
\<close>

function alnum_words :: "ustring \<Rightarrow> ustring list" where
  "alnum_words s =
     (case dropWhile (\<lambda>x. \<not> is_alnum x) s of
        [] \<Rightarrow> []
      | c # cs \<Rightarrow> takeWhile is_alnum (c # cs) # alnum_words (dropWhile is_alnum (c # cs)))"
  by pat_completeness auto
termination
proof (relation "measure length", goal_cases)
  case 1
  show ?case by simp
next
  case (2 s c cs)
  have alnum: "is_alnum c"
    using 2 hd_dropWhile [of "\<lambda>x. \<not> is_alnum x" s] by auto
  have "length (dropWhile is_alnum cs) \<le> length cs"
    by (rule length_dropWhile_le)
  moreover have "length (c # cs) \<le> length s"
    using length_dropWhile_le [of "\<lambda>x. \<not> is_alnum x" s] 2 by simp
  ultimately have "length (dropWhile is_alnum cs) < length s"
    by simp
  with alnum show ?case by simp
qed

declare alnum_words.simps [simp del]

fun join_with :: "'a list \<Rightarrow> 'a list list \<Rightarrow> 'a list" where
  "join_with sep [] = []"
| "join_with sep [w] = w"
| "join_with sep (w # v # ws) = w @ sep @ join_with sep (v # ws)"

definition sanitize_spec :: "unicode_data \<Rightarrow> ustring \<Rightarrow> ustring" where
  "sanitize_spec ud name =
     (let ws = alnum_words (py_lower ud name)
      in if ws = [] then ascii ''team'' else join_with (ascii ''_'') ws)"

definition rstrip_us :: "ustring \<Rightarrow> ustring" where
  \<comment> \<open>the right half of \<open>strip("_")\<close>, used to reason about the trimming\<close>
  "rstrip_us s = rev (dropWhile (\<lambda>c. c = 95) (rev s))"

section \<open>Python values and the operations the exporter uses on them\<close>

text \<open>
  A finite float is kept with its exact value and with the text \<open>repr\<close> prints for it,
  given by its first character and the rest (the text is never empty); computing the
  text from the value is not modelled. \<open>json.loads\<close> also yields the three floats that
  are not finite (\<open>1e999\<close> is read as infinity).
\<close>

datatype pyfloat =
    Finite rat nat ustring
  | PosInf
  | NegInf
  | NaN

text \<open>
  A decoded JSON document, as \<open>response.json()\<close> returns it. A dictionary is kept as
  an association list in insertion order, looked up with \<open>map_of\<close>; its keys are
  meant to be distinct, as those of a dictionary are.
\<close>

datatype json =
    JNull
  | JBool bool
  | JInt int
  | JFloat pyfloat
  | JStr ustring
  | JList "json list"
  | JObj "(ustring \<times> json) list"

datatype error =
    InvalidIdentifier ustring \<comment> \<open>\<open>validate_team_id\<close>: message, then \<open>sys.exit(1)\<close>\<close>
  | TeamNotFound ustring      \<comment> \<open>\<open>get_team_id_by_name\<close>: message, then \<open>sys.exit(1)\<close>\<close>
  | ServiceError ustring      \<comment> \<open>status code other than 200: the response text, then \<open>sys.exit(1)\<close>\<close>
  | TransportError            \<comment> \<open>\<open>RequestException\<close> caught around \<open>requests.get\<close>, then \<open>sys.exit(1)\<close>\<close>
  | MissingToken              \<comment> \<open>\<open>main\<close>: no API token, then \<open>sys.exit(1)\<close>\<close>
  | EmptyTeamName             \<comment> \<open>\<open>main\<close>: empty team name, then \<open>sys.exit(1)\<close>\<close>
  | JSONDecodeError           \<comment> \<open>\<open>response.json()\<close> raises, outside every \<open>try\<close>\<close>
  | AttributeError            \<comment> \<open>\<open>.get\<close> on a value that is not a dictionary\<close>
  | TypeError                 \<comment> \<open>iterating a value that is not iterable\<close>
  | OverflowError             \<comment> \<open>\<open>int\<close> of an infinite float; date arithmetic leaving the range of \<open>datetime\<close>\<close>
  | UnicodeEncodeError        \<comment> \<open>writing a text that UTF-8 cannot encode\<close>
  | OSError                   \<comment> \<open>\<open>open\<close> fails on the destination\<close>

text \<open>
  The outcome of \<open>requests.get\<close>: a \<open>RequestException\<close>, or a response with its
  status code, its text and the value of \<open>response.json()\<close> (\<open>None\<close> when decoding
  raises).
\<close>

datatype http_result =
    RequestFailed
  | Response int ustring "json option"

fun truthy :: "json \<Rightarrow> bool" where
  "truthy JNull = False"
| "truthy (JBool b) = b"
| "truthy (JInt i) = (i \<noteq> 0)"
| "truthy (JFloat (Finite r c cs)) = (r \<noteq> 0)"
| "truthy (JFloat f) = True"
| "truthy (JStr s) = (s \<noteq> [])"
| "truthy (JList xs) = (xs \<noteq> [])"
| "truthy (JObj kvs) = (kvs \<noteq> [])"

definition py_or :: "json \<Rightarrow> json \<Rightarrow> json" where
  \<comment> \<open>\<open>a or b\<close> on values whose evaluation cannot fail\<close>
  "py_or a b = (if truthy a then a else b)"

definition dict_get :: "(ustring \<times> json) list \<Rightarrow> ustring \<Rightarrow> json \<Rightarrow> json" where
  \<comment> \<open>\<open>d.get(k, default)\<close> on a dictionary\<close>
  "dict_get kvs k d = (case map_of kvs k of None \<Rightarrow> d | Some v \<Rightarrow> v)"

fun as_dict :: "json \<Rightarrow> error + (ustring \<times> json) list" where
  \<comment> \<open>the receiver of a \<open>.get\<close> call: only a dictionary has the attribute\<close>
  "as_dict (JObj kvs) = Inr kvs"
| "as_dict _ = Inl AttributeError"

fun py_iter :: "json \<Rightarrow> error + json list" where
  \<comment> \<open>the items a \<open>for\<close> loop or \<open>list.extend\<close> takes from a value\<close>
  "py_iter (JList xs) = Inr xs"
| "py_iter (JStr s) = Inr (map (\<lambda>c. JStr [c]) s)"
| "py_iter (JObj kvs) = Inr (map (\<lambda>kv. JStr (fst kv)) kvs)"
| "py_iter _ = Inl TypeError"

subsection \<open>\<open>str\<close> and \<open>repr\<close>\<close>

definition digit_char :: "nat \<Rightarrow> nat" where
  "digit_char d = 48 + d"

fun dec_digits :: "nat \<Rightarrow> ustring" where
  "dec_digits n = (if n < 10 then [digit_char n] else dec_digits (n div 10) @ [digit_char (n mod 10)])"

declare dec_digits.simps [simp del]

definition str_int :: "int \<Rightarrow> ustring" where
  "str_int i = (if i < 0 then 45 # dec_digits (nat (- i)) else dec_digits (nat i))"

definition hex_char :: "nat \<Rightarrow> nat" where
  "hex_char d = (if d < 10 then 48 + d else 87 + d)"

fun hex_pad :: "nat \<Rightarrow> nat \<Rightarrow> ustring" where
  \<comment> \<open>the last \<open>w\<close> hexadecimal digits, in lower case\<close>
  "hex_pad 0 n = []"
| "hex_pad (Suc w) n = hex_pad w (n div 16) @ [hex_char (n mod 16)]"

definition is_surrogate :: "nat \<Rightarrow> bool" where
  \<comment> \<open>the code points U+D800 to U+DFFF: never printable, and without a UTF-8 encoding\<close>
  "is_surrogate c = (0xD800 \<le> c \<and> c \<le> 0xDFFF)"

definition repr_char :: "unicode_data \<Rightarrow> nat \<Rightarrow> nat \<Rightarrow> ustring" where
  \<comment> \<open>one character inside \<open>repr\<close> of a string quoted with \<open>q\<close>; 92 is the backslash,
     followed by \<open>t\<close>, \<open>n\<close>, \<open>r\<close>, \<open>x\<close>, \<open>u\<close> or \<open>U\<close>\<close>
  "repr_char ud q c =
     (if c = q \<or> c = 92 then [92, c]
      else if c = 9 then [92, 116]
      else if c = 10 then [92, 110]
      else if c = 13 then [92, 114]
      else if c < 32 \<or> c = 127 then [92, 120] @ hex_pad 2 c
      else if c < 127 then [c]
      else if ud_printable ud c \<and> \<not> is_surrogate c then [c]
      else if c \<le> 0xFF then [92, 120] @ hex_pad 2 c
      else if c \<le> 0xFFFF then [92, 117] @ hex_pad 4 c
      else [92, 85] @ hex_pad 8 c)"

definition repr_str :: "unicode_data \<Rightarrow> ustring \<Rightarrow> ustring" where
  \<comment> \<open>\<open>repr(s)\<close>: double quotes (34) only when \<open>s\<close> holds a single quote (39) and no
     double quote\<close>
  "repr_str ud s =
     (let q = (if 39 \<in> set s \<and> 34 \<notin> set s then 34 else 39)
      in q # concat (map (repr_char ud q) s) @ [q])"

fun repr_float :: "pyfloat \<Rightarrow> ustring" where
  "repr_float (Finite r c cs) = c # cs"
| "repr_float PosInf = ascii ''inf''"
| "repr_float NegInf = ascii ''-inf''"
| "repr_float NaN = ascii ''nan''"

fun py_repr :: "unicode_data \<Rightarrow> json \<Rightarrow> ustring" where
  "py_repr ud JNull = ascii ''None''"
| "py_repr ud (JBool b) = (if b then ascii ''True'' else ascii ''False'')"
| "py_repr ud (JInt i) = str_int i"
| "py_repr ud (JFloat f) = repr_float f"
| "py_repr ud (JStr s) = repr_str ud s"
| "py_repr ud (JList xs) = ascii ''['' @ join_with (ascii '', '') (map (py_repr ud) xs) @ ascii '']''"
| "py_repr ud (JObj kvs) =
     ascii ''{''
     @ join_with (ascii '', '') (map (\<lambda>kv. repr_str ud (fst kv) @ ascii '': '' @ py_repr ud (snd kv)) kvs)
     @ ascii ''}''"

fun py_str :: "unicode_data \<Rightarrow> json \<Rightarrow> ustring" where
  \<comment> \<open>\<open>str(x)\<close>\<close>
  "py_str ud (JStr s) = s"
| "py_str ud x = py_repr ud x"

subsection \<open>\<open>int\<close>\<close>

definition to_ascii_digits :: "unicode_data \<Rightarrow> ustring \<Rightarrow> ustring" where
  \<comment> \<open>what \<open>int\<close> does to a string that is not ASCII before reading it: white space
     above 126 becomes a space, a decimal digit its ASCII digit, anything else \<open>?\<close>\<close>
  "to_ascii_digits ud s =
     (if list_all (\<lambda>c. c < 128) s then s
      else map (\<lambda>c. if c < 127 then c
                     else if is_space c then 32
                     else if c = 127 then 63
                     else (case ud_decimal ud c of Some d \<Rightarrow> 48 + d | None \<Rightarrow> 63)) s)"

definition is_c_space :: "nat \<Rightarrow> bool" where
  \<comment> \<open>the white space \<open>int\<close> skips around the number: tab, LF, VT, FF, CR and space\<close>
  "is_c_space c = ((9 \<le> c \<and> c \<le> 13) \<or> c = 32)"

fun underscores_ok :: "ustring \<Rightarrow> bool" where
  \<comment> \<open>digits, with single underscores only between digits\<close>
  "underscores_ok [] = False"
| "underscores_ok [c] = is_digit c"
| "underscores_ok (c # d # cs) =
     (if is_digit c then underscores_ok (d # cs)
      else c = 95 \<and> is_digit d \<and> underscores_ok (d # cs))"

definition digits_value :: "ustring \<Rightarrow> nat" where
  "digits_value s = foldl (\<lambda>acc c. 10 * acc + (c - 48)) 0 (filter is_digit s)"

definition max_str_digits :: nat where
  \<comment> \<open>\<open>sys.int_info.default_max_str_digits\<close> (Python 3.11 and later)\<close>
  "max_str_digits = 4300"

definition int_literal :: "unicode_data \<Rightarrow> ustring \<Rightarrow> int option" where
  \<comment> \<open>\<open>int(s)\<close> for a string; \<open>None\<close> when it raises \<open>ValueError\<close>. 45 and 43 are the
     signs.\<close>
  "int_literal ud s =
     (let t = strip_where is_c_space (to_ascii_digits ud s);
          neg = (t \<noteq> [] \<and> hd t = 45);
          body = (if t \<noteq> [] \<and> (hd t = 45 \<or> hd t = 43) then tl t else t)
      in if body \<noteq> [] \<and> is_digit (hd body) \<and> underscores_ok body
            \<and> length (filter is_digit body) \<le> max_str_digits
         then Some (if neg then - int (digits_value body) else int (digits_value body))
         else None)"

definition py_trunc :: "rat \<Rightarrow> int" where
  \<comment> \<open>rounding towards zero\<close>
  "py_trunc r = (if 0 \<le> r then \<lfloor>r\<rfloor> else \<lceil>r\<rceil>)"

fun py_int :: "unicode_data \<Rightarrow> json \<Rightarrow> error + int option" where
  \<comment> \<open>\<open>int(x)\<close> inside \<open>try ... except (ValueError, TypeError)\<close>: \<open>Inr None\<close> when one of
     the two is raised and caught; the \<open>OverflowError\<close> of an infinite float is not caught\<close>
  "py_int ud (JInt i) = Inr (Some i)"
| "py_int ud (JBool b) = Inr (Some (if b then 1 else 0))"
| "py_int ud (JStr s) = Inr (int_literal ud s)"
| "py_int ud (JFloat (Finite r c cs)) = Inr (Some (py_trunc r))"
| "py_int ud (JFloat PosInf) = Inl OverflowError"
| "py_int ud (JFloat NegInf) = Inl OverflowError"
| "py_int ud (JFloat NaN) = Inr None"
| "py_int ud JNull = Inr None"
| "py_int ud (JList xs) = Inr None"
| "py_int ud (JObj kvs) = Inr None"

section \<open>Identifier validation\<close>

definition is_id_char :: "nat \<Rightarrow> bool" where
  \<comment> \<open>the character class \<open>[A-Z0-9]\<close>\<close>
  "is_id_char c = (is_upper c \<or> is_digit c)"

definition is_pagerduty_team_id :: "ustring \<Rightarrow> bool" where
  \<comment> \<open>\<open>re.match\<close> of \<open>^[A-Z0-9]{7,}$\<close>; \<open>$\<close> also matches before one final line feed (10)\<close>
  "is_pagerduty_team_id v =
     (let core = (if v \<noteq> [] \<and> last v = 10 then butlast v else v)
      in 7 \<le> length core \<and> list_all is_id_char core)"

definition validate_team_id :: "ustring \<Rightarrow> error + ustring" where
  "validate_team_id team_id =
     (if team_id = [] \<or> \<not> is_pagerduty_team_id team_id then Inl (InvalidIdentifier team_id)
      else Inr team_id)"

section \<open>Team resolver\<close>

record teams_query =
  tq_query :: ustring
  tq_limit :: nat

definition team_name_matches :: "unicode_data \<Rightarrow> ustring \<Rightarrow> (ustring \<times> json) list \<Rightarrow> bool" where
  \<comment> \<open>\<open>str(team.get("name", "")).lower() == team_name.lower()\<close>\<close>
  "team_name_matches ud team_name team =
     (py_lower ud (py_str ud (dict_get team (ascii ''name'') (JStr []))) = py_lower ud team_name)"

definition team_id_text :: "unicode_data \<Rightarrow> (ustring \<times> json) list \<Rightarrow> ustring" where
  \<comment> \<open>\<open>str(team.get("id") or "")\<close>\<close>
  "team_id_text ud team = py_str ud (py_or (dict_get team (ascii ''id'') JNull) (JStr []))"

fun find_team :: "unicode_data \<Rightarrow> ustring \<Rightarrow> json list \<Rightarrow> error + ustring" where
  "find_team ud team_name [] = Inl (TeamNotFound team_name)"
| "find_team ud team_name (t # ts) =
     (case as_dict t of
        Inl e \<Rightarrow> Inl e
      | Inr team \<Rightarrow>
          if team_name_matches ud team_name team
          then validate_team_id (team_id_text ud team)
          else find_team ud team_name ts)"

definition get_team_id_by_name ::
  "unicode_data \<Rightarrow> (teams_query \<Rightarrow> http_result) \<Rightarrow> ustring \<Rightarrow> error + ustring" where
  "get_team_id_by_name ud teams_api team_name =
     (case teams_api \<lparr>tq_query = team_name, tq_limit = 100\<rparr> of
        RequestFailed \<Rightarrow> Inl TransportError
      | Response status body decoded \<Rightarrow>
          if status \<noteq> 200 then Inl (ServiceError body)
          else (case decoded of
                  None \<Rightarrow> Inl JSONDecodeError
                | Some j \<Rightarrow>
                    (case as_dict (py_or j (JObj [])) of
                       Inl e \<Rightarrow> Inl e
                     | Inr data \<Rightarrow>
                         (case py_iter (dict_get data (ascii ''teams'') (JList [])) of
                            Inl e \<Rightarrow> Inl e
                          | Inr teams \<Rightarrow> find_team ud team_name teams))))"

section \<open>Paginated incident fetcher\<close>

record incidents_query =
  iq_team_ids :: "ustring list"
  iq_since :: ustring
  iq_until :: ustring
  iq_limit :: nat
  iq_offset :: nat
  iq_total :: ustring

text \<open>
  The variables of the loop in \<open>get_incidents_for_team\<close>. \<open>progress\<close> lists the
  calls of \<open>print_progress_bar\<close> (current, total) in order, and \<open>requests\<close> the queries
  sent: both are observations added by the model.
\<close>

record fetch_vars =
  incidents :: "json list"
  offset :: nat
  total_count :: "int option"
  fetched_count :: nat
  printed_progress :: bool
  progress :: "(nat \<times> int) list"
  requests :: "incidents_query list"

definition limit :: nat where
  "limit = 100"

definition fetch_init :: fetch_vars where
  "fetch_init = \<lparr>incidents = [], offset = 0, total_count = None, fetched_count = 0,
     printed_progress = False, progress = [], requests = []\<rparr>"

definition page_query :: "ustring \<Rightarrow> ustring \<Rightarrow> ustring \<Rightarrow> nat \<Rightarrow> incidents_query" where
  "page_query team_id since until off =
     \<lparr>iq_team_ids = [team_id], iq_since = since, iq_until = until,
      iq_limit = limit, iq_offset = off, iq_total = ascii ''true''\<rparr>"

definition read_total :: "unicode_data \<Rightarrow> (ustring \<times> json) list \<Rightarrow> error + int option" where
  \<comment> \<open>\<open>int(data.get("total")) if data.get("total") is not None else None\<close> under
     \<open>except (ValueError, TypeError)\<close>\<close>
  "read_total ud data =
     (case dict_get data (ascii ''total'') JNull of JNull \<Rightarrow> Inr None | t \<Rightarrow> py_int ud t)"

text \<open>
  One pass through the body of the \<open>while True\<close> loop: the new variables and whether
  the loop goes on (\<open>True\<close>) or breaks.
\<close>

definition fetch_page ::
  "unicode_data \<Rightarrow> (incidents_query \<Rightarrow> http_result) \<Rightarrow> ustring \<Rightarrow> ustring \<Rightarrow> ustring
     \<Rightarrow> fetch_vars \<Rightarrow> error + (bool \<times> fetch_vars)" where
  "fetch_page ud incidents_api team_id since until v =
     (let params = page_query team_id since until (offset v);
          v1 = v\<lparr>requests := requests v @ [params]\<rparr>
      in case incidents_api params of
        RequestFailed \<Rightarrow> Inl TransportError
      | Response status body decoded \<Rightarrow>
          if status \<noteq> 200 then Inl (ServiceError body)
          else (case decoded of
                  None \<Rightarrow> Inl JSONDecodeError
                | Some j \<Rightarrow>
                    (case as_dict (py_or j (JObj [])) of
                       Inl e \<Rightarrow> Inl e
                     | Inr data \<Rightarrow>
                         (case py_iter (dict_get data (ascii ''incidents'') (JList [])) of
                            Inl e \<Rightarrow> Inl e
                          | Inr page_incidents \<Rightarrow>
                              (case (if total_count v1 = None then read_total ud data
                                     else Inr (total_count v1)) of
                                 Inl e \<Rightarrow> Inl e
                               | Inr count \<Rightarrow>
                                   (let v2 = v1\<lparr>incidents := incidents v1 @ page_incidents,
                                               total_count := count\<rparr>;
                                        v3 = v2\<lparr>fetched_count := fetched_count v2 + length page_incidents\<rparr>;
                                        v4 = (case total_count v3 of
                                                None \<Rightarrow> v3
                                              | Some t \<Rightarrow>
                                                  if t \<noteq> 0
                                                  then v3\<lparr>progress := progress v3 @ [(fetched_count v3, t)],
                                                          printed_progress := True\<rparr>
                                                  else v3)
                                    in if \<not> truthy (dict_get data (ascii ''more'') (JBool False))
                                       then Inr (False, v4)
                                       else Inr (True, v4\<lparr>offset := offset v4 + limit\<rparr>)))))))"

partial_function (option) fetch_loop ::
  "unicode_data \<Rightarrow> (incidents_query \<Rightarrow> http_result) \<Rightarrow> ustring \<Rightarrow> ustring \<Rightarrow> ustring
     \<Rightarrow> fetch_vars \<Rightarrow> (error + fetch_vars) option" where
  "fetch_loop ud incidents_api team_id since until v =
     (case fetch_page ud incidents_api team_id since until v of
        Inl e \<Rightarrow> Some (Inl e)
      | Inr (again, v') \<Rightarrow>
          if again then fetch_loop ud incidents_api team_id since until v' else Some (Inr v'))"

text \<open>
  \<open>get_incidents_for_team\<close>: \<open>None\<close> when the loop never ends, otherwise the error
  that ended the run or the final variables, whose \<open>incidents\<close> field is the value
  returned.
\<close>

definition get_incidents_for_team ::
  "unicode_data \<Rightarrow> (incidents_query \<Rightarrow> http_result) \<Rightarrow> ustring \<Rightarrow> ustring \<Rightarrow> ustring
     \<Rightarrow> (error + fetch_vars) option" where
  "get_incidents_for_team ud incidents_api team_id since until =
     (case validate_team_id team_id of
        Inl e \<Rightarrow> Some (Inl e)
      | Inr _ \<Rightarrow> fetch_loop ud incidents_api team_id since until fetch_init)"

definition returned_incidents :: "(error + fetch_vars) option \<Rightarrow> (error + json list) option" where
  \<comment> \<open>what the caller of \<open>get_incidents_for_team\<close> receives\<close>
  "returned_incidents r = map_option (map_sum id incidents) r"

section \<open>Resolution enricher\<close>

record log_query =
  lq_incident_id :: ustring
  lq_limit :: nat
  lq_is_overview :: ustring
  lq_include :: ustring

fun scan_log_entries :: "unicode_data \<Rightarrow> json list \<Rightarrow> error + ustring option" where
  "scan_log_entries ud [] = Inr None"
| "scan_log_entries ud (e # es) =
     (case as_dict e of
        Inl err \<Rightarrow> Inl err
      | Inr entry \<Rightarrow>
          if dict_get entry (ascii ''type'') JNull = JStr (ascii ''resolve_log_entry'')
          then (case as_dict (py_or (dict_get entry (ascii ''agent'') JNull) (JObj [])) of
                  Inl err \<Rightarrow> Inl err
                | Inr agent \<Rightarrow>
                    (let resolved_by = py_or (dict_get agent (ascii ''summary'') JNull)
                                             (dict_get agent (ascii ''name'') JNull)
                     in case as_dict (py_or (dict_get entry (ascii ''channel'') JNull) (JObj [])) of
                          Inl err \<Rightarrow> Inl err
                        | Inr channel \<Rightarrow>
                            Inr (if truthy resolved_by then Some (py_str ud resolved_by) else None)))
          else scan_log_entries ud es)"

definition log_request :: "ustring \<Rightarrow> log_query" where
  \<comment> \<open>the request for the log entries of one incident\<close>
  "log_request incident_id =
     \<lparr>lq_incident_id = incident_id, lq_limit = 100,
      lq_is_overview = ascii ''false'', lq_include = ascii ''users''\<rparr>"

definition get_incident_resolve_metadata ::
  "unicode_data \<Rightarrow> (log_query \<Rightarrow> http_result) \<Rightarrow> ustring \<Rightarrow> error + ustring option" where
  \<comment> \<open>the value under \<open>resolved_by\<close> of the dictionary returned, or the exception raised\<close>
  "get_incident_resolve_metadata ud log_api incident_id =
     (case log_api (log_request incident_id) of
        RequestFailed \<Rightarrow> Inr None
      | Response status body decoded \<Rightarrow>
          if status \<noteq> 200 then Inr None
          else (case decoded of
                  None \<Rightarrow> Inl JSONDecodeError
                | Some j \<Rightarrow>
                    (case as_dict (py_or j (JObj [])) of
                       Inl e \<Rightarrow> Inl e
                     | Inr data \<Rightarrow>
                         (case py_iter (dict_get data (ascii ''log_entries'') (JList [])) of
                            Inl e \<Rightarrow> Inl e
                          | Inr entries \<Rightarrow> scan_log_entries ud entries))))"

section \<open>UTC timestamps\<close>

text \<open>
  A \<open>datetime\<close> in UTC with the fields Python keeps, and the calendar arithmetic of
  the \<open>datetime\<close> module behind \<open>now_utc - timedelta(days=n)\<close>: the date becomes its
  proleptic Gregorian ordinal (day 1 is 0001-01-01), the days are subtracted, and the
  ordinal becomes a date again; a result outside the years 1 to 9999 raises
  \<open>OverflowError\<close>.
\<close>

record datetime =
  dt_year :: nat
  dt_month :: nat
  dt_day :: nat
  dt_hour :: nat
  dt_minute :: nat
  dt_second :: nat
  dt_microsecond :: nat

definition is_leap :: "nat \<Rightarrow> bool" where
  "is_leap y = (y mod 4 = 0 \<and> (y mod 100 \<noteq> 0 \<or> y mod 400 = 0))"

definition days_in_month_table :: "nat list" where
  "days_in_month_table = [0, 31, 28, 31, 30, 31, 30, 31, 31, 30, 31, 30, 31]"

definition days_before_month_table :: "nat list" where
  "days_before_month_table = [0, 0, 31, 59, 90, 120, 151, 181, 212, 243, 273, 304, 334]"

definition days_in_month :: "nat \<Rightarrow> nat \<Rightarrow> nat" where
  "days_in_month y m = (if m = 2 \<and> is_leap y then 29 else days_in_month_table ! m)"

definition days_before_year :: "nat \<Rightarrow> nat" where
  "days_before_year year =
     (let y = year - 1 in y * 365 + y div 4 + y div 400 - y div 100)"

definition days_before_month :: "nat \<Rightarrow> nat \<Rightarrow> nat" where
  "days_before_month y m = days_before_month_table ! m + (if 2 < m \<and> is_leap y then 1 else 0)"

definition ymd2ord :: "nat \<Rightarrow> nat \<Rightarrow> nat \<Rightarrow> nat" where
  "ymd2ord y m d = days_before_year y + days_before_month y m + d"

definition month_day :: "bool \<Rightarrow> nat \<Rightarrow> nat \<times> nat" where
  \<comment> \<open>month and day of the day numbered \<open>n\<close> (from 0) of a year\<close>
  "month_day leapyear n =
     (let month = (n + 50) div 32;
          preceding = days_before_month_table ! month + (if 2 < month \<and> leapyear then 1 else 0)
      in if n < preceding
         then (month - 1,
               n - (preceding - (days_in_month_table ! (month - 1)
                                 + (if month - 1 = 2 \<and> leapyear then 1 else 0))) + 1)
         else (month, n - preceding + 1))"

definition ord2ymd :: "nat \<Rightarrow> nat \<times> nat \<times> nat" where
  "ord2ymd ordinal =
     (let n = ordinal - 1;
          n400 = n div 146097; n = n mod 146097;
          n100 = n div 36524; n = n mod 36524;
          n4 = n div 1461; n = n mod 1461;
          n1 = n div 365; n = n mod 365;
          year = n400 * 400 + 1 + n100 * 100 + n4 * 4 + n1
      in if n1 = 4 \<or> n100 = 4 then (year - 1, 12, 31)
         else (let leapyear = (n1 = 3 \<and> (n4 \<noteq> 24 \<or> n100 = 3));
                   md = month_day leapyear n
               in (year, fst md, snd md)))"

definition max_ordinal :: nat where
  \<comment> \<open>the ordinal of 9999-12-31\<close>
  "max_ordinal = 3652059"

definition toordinal :: "datetime \<Rightarrow> nat" where
  "toordinal dt = ymd2ord (dt_year dt) (dt_month dt) (dt_day dt)"

definition sub_days :: "datetime \<Rightarrow> int \<Rightarrow> error + datetime" where
  \<comment> \<open>\<open>dt - datetime.timedelta(days=n)\<close>\<close>
  "sub_days dt n =
     (if 999999999 < \<bar>n\<bar> then Inl OverflowError
      else (let ordinal = int (toordinal dt) - n
            in if 0 < ordinal \<and> ordinal \<le> int max_ordinal
               then (case ord2ymd (nat ordinal) of
                       (y, m, d) \<Rightarrow> Inr (dt\<lparr>dt_year := y, dt_month := m, dt_day := d\<rparr>))
               else Inl OverflowError))"

definition zero_pad :: "nat \<Rightarrow> nat \<Rightarrow> ustring" where
  \<comment> \<open>the format \<open>%0wd\<close>\<close>
  "zero_pad w n = replicate (w - length (dec_digits n)) 48 @ dec_digits n"

definition isoformat :: "datetime \<Rightarrow> ustring" where
  \<comment> \<open>\<open>dt.isoformat()\<close> of a datetime whose zone is UTC\<close>
  "isoformat dt =
     zero_pad 4 (dt_year dt) @ ascii ''-'' @ zero_pad 2 (dt_month dt) @ ascii ''-''
     @ zero_pad 2 (dt_day dt) @ ascii ''T'' @ zero_pad 2 (dt_hour dt) @ ascii '':''
     @ zero_pad 2 (dt_minute dt) @ ascii '':'' @ zero_pad 2 (dt_second dt)
     @ (if dt_microsecond dt \<noteq> 0 then ascii ''.'' @ zero_pad 6 (dt_microsecond dt) else [])
     @ ascii ''+00:00''"

function py_replace :: "ustring \<Rightarrow> ustring \<Rightarrow> ustring \<Rightarrow> ustring" where
  \<comment> \<open>\<open>s.replace(old, new)\<close> for a non-empty \<open>old\<close>: leftmost occurrences, not overlapping\<close>
  "py_replace old new s =
     (if old = [] then s
      else if prefix old s then new @ py_replace old new (drop (length old) s)
      else (case s of [] \<Rightarrow> [] | c # cs \<Rightarrow> c # py_replace old new cs))"
  by pat_completeness auto
termination
  by (relation "measure (\<lambda>(old, new, s). length s)") (auto simp: prefix_def)

declare py_replace.simps [simp del]

definition to_iso8601_utc :: "datetime \<Rightarrow> ustring" where
  "to_iso8601_utc dt = py_replace (ascii ''+00:00'') (ascii ''Z'') (isoformat (dt\<lparr>dt_microsecond := 0\<rparr>))"

definition valid_datetime :: "datetime \<Rightarrow> bool" where
  \<comment> \<open>the values a \<open>datetime\<close> object can hold\<close>
  "valid_datetime dt =
     (1 \<le> dt_year dt \<and> dt_year dt \<le> 9999 \<and> 1 \<le> dt_month dt \<and> dt_month dt \<le> 12
      \<and> 1 \<le> dt_day dt \<and> dt_day dt \<le> days_in_month (dt_year dt) (dt_month dt)
      \<and> dt_hour dt < 24 \<and> dt_minute dt < 60 \<and> dt_second dt < 60 \<and> dt_microsecond dt < 1000000)"

definition time_window :: "datetime \<Rightarrow> int \<Rightarrow> error + (int \<times> datetime \<times> ustring \<times> ustring)" where
  \<comment> \<open>lines 264 to 269 of \<open>main\<close>: the lookback used, its start, and \<open>since\<close> and \<open>until\<close>\<close>
  "time_window now_utc days =
     (let lookback_days = max 1 days
      in case sub_days now_utc lookback_days of
           Inl e \<Rightarrow> Inl e
         | Inr lookback_utc \<Rightarrow>
             Inr (lookback_days, lookback_utc, to_iso8601_utc lookback_utc, to_iso8601_utc now_utc))"

section \<open>Tabular exporter\<close>

text \<open>
  A row is the list of values handed to \<open>writer.writerow\<close>; the file system maps a
  path to the rows of the file stored there. Of the text \<open>csv\<close> makes of a row the
  model keeps what decides whether the row can be written: the text of each field
  (empty for \<open>None\<close>, the string itself, \<open>str\<close> of anything else) must be encodable in
  UTF-8, the encoding the file is opened with; \<open>writerow\<close> hands the whole line to the
  file at once, so a line that cannot be encoded raises \<open>UnicodeEncodeError\<close> and
  leaves the file as it was.
\<close>

type_synonym csv_row = "json list"

type_synonym file_system = "ustring \<Rightarrow> csv_row list option"

definition headers :: csv_row where
  "headers = [JStr (ascii ''HTML URL''), JStr (ascii ''Incident Number''), JStr (ascii ''Title''),
     JStr (ascii ''Status''), JStr (ascii ''Service Name''), JStr (ascii ''Created''),
     JStr (ascii ''Urgency''), JStr (ascii ''Resolved By'')]"

definition csv_text :: "unicode_data \<Rightarrow> json \<Rightarrow> ustring" where
  \<comment> \<open>the text of one field\<close>
  "csv_text ud x = (case x of JNull \<Rightarrow> [] | _ \<Rightarrow> py_str ud x)"

definition utf8_encodable :: "ustring \<Rightarrow> bool" where
  "utf8_encodable s = list_all (\<lambda>c. \<not> is_surrogate c) s"

definition row_encodable :: "unicode_data \<Rightarrow> csv_row \<Rightarrow> bool" where
  "row_encodable ud row = list_all (\<lambda>x. utf8_encodable (csv_text ud x)) row"

text \<open>
  The variables of the loop in \<open>write_incidents_to_csv\<close>. \<open>rows\<close> is what has been
  written to the open file, \<open>enriched\<close> lists the incident ids handed to
  \<open>get_incident_resolve_metadata\<close>, and \<open>shown\<close> the calls of \<open>print_progress_bar\<close>.
\<close>

record export_vars =
  rows :: "csv_row list"
  processed :: nat
  bar_printed :: bool
  shown :: "(nat \<times> nat) list"
  enriched :: "ustring list"

definition actor_summary_or_unknown :: "(ustring \<times> json) list \<Rightarrow> error + json" where
  \<comment> \<open>\<open>(inc.get("last_status_change_by") or {}).get("summary") or "Unknown"\<close>\<close>
  "actor_summary_or_unknown inc =
     (case as_dict (py_or (dict_get inc (ascii ''last_status_change_by'') JNull) (JObj [])) of
        Inl e \<Rightarrow> Inl e
      | Inr actor \<Rightarrow> Inr (py_or (dict_get actor (ascii ''summary'') JNull) (JStr (ascii ''Unknown''))))"

definition resolved_by_of :: "ustring option \<Rightarrow> (ustring \<times> json) list \<Rightarrow> error + json" where
  \<comment> \<open>\<open>meta.get("resolved_by") or ... or "Unknown"\<close>: the right of \<open>or\<close> is evaluated
     only when the enricher's value is \<open>None\<close> or empty\<close>
  "resolved_by_of meta inc =
     (case meta of
        None \<Rightarrow> actor_summary_or_unknown inc
      | Some s \<Rightarrow> if s = [] then actor_summary_or_unknown inc else Inr (JStr s))"

definition write_row :: "unicode_data \<Rightarrow> nat \<Rightarrow> csv_row \<Rightarrow> export_vars \<Rightarrow> error + export_vars" where
  \<comment> \<open>\<open>writer.writerow\<close>, then the progress accounting\<close>
  "write_row ud total_items row v =
     (if \<not> row_encodable ud row then Inl UnicodeEncodeError
      else (let v1 = v\<lparr>rows := rows v @ [row], processed := processed v + 1\<rparr>
            in Inr (if total_items \<noteq> 0
                    then v1\<lparr>shown := shown v1 @ [(processed v1, total_items)], bar_printed := True\<rparr>
                    else v1)))"

definition incident_row :: "(ustring \<times> json) list \<Rightarrow> json \<Rightarrow> json \<Rightarrow> csv_row" where
  "incident_row inc service_name resolved_by =
     [dict_get inc (ascii ''html_url'') (JStr []),
      dict_get inc (ascii ''incident_number'') (JStr (ascii ''N/A'')),
      dict_get inc (ascii ''title'') (JStr (ascii ''N/A'')),
      dict_get inc (ascii ''status'') (JStr (ascii ''N/A'')),
      service_name,
      dict_get inc (ascii ''created_at'') (JStr (ascii ''N/A'')),
      dict_get inc (ascii ''urgency'') (JStr (ascii ''N/A'')),
      resolved_by]"

definition write_incident ::
  "unicode_data \<Rightarrow> nat \<Rightarrow> csv_row \<Rightarrow> export_vars \<Rightarrow> export_vars \<times> error option" where
  \<comment> \<open>the end of the loop body: the loop variables afterwards and the exception raised, if any\<close>
  "write_incident ud total_items row v =
     (case write_row ud total_items row v of Inl e \<Rightarrow> (v, Some e) | Inr v' \<Rightarrow> (v', None))"

definition export_incident ::
  "unicode_data \<Rightarrow> (log_query \<Rightarrow> http_result) \<Rightarrow> nat \<Rightarrow> json \<Rightarrow> export_vars
     \<Rightarrow> export_vars \<times> error option" where
  \<comment> \<open>one pass through the body of \<open>for inc in incidents\<close>\<close>
  "export_incident ud log_api total_items i v =
     (case as_dict i of
        Inl e \<Rightarrow> (v, Some e)
      | Inr inc \<Rightarrow>
          (case as_dict (py_or (dict_get inc (ascii ''service'') JNull) (JObj [])) of
             Inl e \<Rightarrow> (v, Some e)
           | Inr service \<Rightarrow>
               (let service_name = py_or (py_or (dict_get service (ascii ''summary'') JNull)
                                                (dict_get service (ascii ''name'') JNull))
                                         (JStr (ascii ''N/A''))
                in if dict_get inc (ascii ''status'') JNull = JStr (ascii ''resolved'')
                   then (let incident_id = py_str ud (dict_get inc (ascii ''id'') (JStr []));
                             v1 = v\<lparr>enriched := enriched v @ [incident_id]\<rparr>
                         in case get_incident_resolve_metadata ud log_api incident_id of
                              Inl e \<Rightarrow> (v1, Some e)
                            | Inr meta \<Rightarrow>
                                (case resolved_by_of meta inc of
                                   Inl e \<Rightarrow> (v1, Some e)
                                 | Inr resolved_by \<Rightarrow>
                                     write_incident ud total_items
                                       (incident_row inc service_name resolved_by) v1))
                   else write_incident ud total_items
                          (incident_row inc service_name (JStr [])) v)))"

fun export_loop ::
  "unicode_data \<Rightarrow> (log_query \<Rightarrow> http_result) \<Rightarrow> nat \<Rightarrow> json list \<Rightarrow> export_vars
     \<Rightarrow> export_vars \<times> error option" where
  "export_loop ud log_api total_items [] v = (v, None)"
| "export_loop ud log_api total_items (i # is) v =
     (case export_incident ud log_api total_items i v of
        (v', Some e) \<Rightarrow> (v', Some e)
      | (v', None) \<Rightarrow> export_loop ud log_api total_items is v')"

definition default_filename :: "unicode_data \<Rightarrow> ustring \<Rightarrow> ustring" where
  "default_filename ud team_name =
     ascii ''pagerduty_incidents_'' @ sanitize_filename_component ud team_name @ ascii ''.csv''"

definition export_init :: export_vars where
  "export_init = \<lparr>rows = [headers], processed = 0, bar_printed = False, shown = [], enriched = []\<rparr>"

text \<open>
  \<open>write_incidents_to_csv\<close>: \<open>can_open\<close> tells whether \<open>open(filename, "w")\<close>
  succeeds. The result is the file system afterwards, the final loop variables and the
  exception that ended the call, if any. A file opened for writing keeps the rows written
  before an exception.
\<close>

definition output_path :: "unicode_data \<Rightarrow> ustring \<Rightarrow> ustring option \<Rightarrow> ustring" where
  \<comment> \<open>\<open>if not filename: filename = f"pagerduty_incidents_{team}.csv"\<close>\<close>
  "output_path ud team_name filename =
     (case filename of
        None \<Rightarrow> default_filename ud team_name
      | Some f \<Rightarrow> if f = [] then default_filename ud team_name else f)"

definition write_incidents_to_csv ::
  "unicode_data \<Rightarrow> (ustring \<Rightarrow> bool) \<Rightarrow> (log_query \<Rightarrow> http_result) \<Rightarrow> file_system \<Rightarrow> json list
     \<Rightarrow> ustring \<Rightarrow> ustring option \<Rightarrow> file_system \<times> export_vars \<times> error option" where
  "write_incidents_to_csv ud can_open log_api fs incs team_name filename =
     (let path = output_path ud team_name filename
      in if \<not> can_open path
         then (fs, export_init\<lparr>rows := []\<rparr>, Some OSError)
         else (case export_loop ud log_api (length incs) incs export_init of
                 (v, err) \<Rightarrow> (fs(path \<mapsto> rows v), v, err)))"

section \<open>The pipeline\<close>

record arguments =
  arg_team_name :: "ustring option"
  arg_days :: int
  arg_output :: "ustring option"

text \<open>
  Everything \<open>main\<close> reads from outside: the token of the environment, the parsed
  arguments, the line typed at the prompt, the clock, the three endpoints of the
  service and the file system. Standard output is taken to accept every message.
\<close>

record environment =
  env_token :: "ustring option"
  env_args :: arguments
  env_input :: ustring
  env_now :: datetime
  env_teams_api :: "teams_query \<Rightarrow> http_result"
  env_incidents_api :: "incidents_query \<Rightarrow> http_result"
  env_log_api :: "log_query \<Rightarrow> http_result"
  env_can_open :: "ustring \<Rightarrow> bool"
  env_files :: file_system

record outcome =
  out_files :: file_system
  out_error :: "error option"
  out_exported :: "export_vars option"

definition export_stage :: "unicode_data \<Rightarrow> environment \<Rightarrow> ustring \<Rightarrow> json list \<Rightarrow> outcome" where
  \<comment> \<open>lines 276 to 279 of \<open>main\<close>\<close>
  "export_stage ud env team_name incs =
     (if incs \<noteq> []
      then (case write_incidents_to_csv ud (env_can_open env) (env_log_api env) (env_files env)
                   incs team_name (arg_output (env_args env)) of
              (fs, v, err) \<Rightarrow> \<lparr>out_files = fs, out_error = err, out_exported = Some v\<rparr>)
      else \<lparr>out_files = env_files env, out_error = None, out_exported = None\<rparr>)"

definition failed :: "environment \<Rightarrow> error \<Rightarrow> outcome" where
  "failed env e = \<lparr>out_files = env_files env, out_error = Some e, out_exported = None\<rparr>"

definition given_team_name :: "environment \<Rightarrow> ustring" where
  \<comment> \<open>\<open>args.team_name or input(...).strip()\<close>\<close>
  "given_team_name env =
     (case arg_team_name (env_args env) of
        None \<Rightarrow> py_strip (env_input env)
      | Some t \<Rightarrow> if t = [] then py_strip (env_input env) else t)"

definition fetch_stage :: "unicode_data \<Rightarrow> environment \<Rightarrow> (error + ustring \<times> fetch_vars) option" where
  \<comment> \<open>lines 251 to 274 of \<open>main\<close>: the team name and what the fetcher hands back;
     \<open>None\<close> when the fetch loop never ends\<close>
  "fetch_stage ud env =
     (if env_token env = None \<or> env_token env = Some [] then Some (Inl MissingToken)
      else (let team_name = given_team_name env
            in if team_name = [] then Some (Inl EmptyTeamName)
               else (case (if is_pagerduty_team_id team_name then Inr team_name
                           else get_team_id_by_name ud (env_teams_api env) team_name) of
                       Inl e \<Rightarrow> Some (Inl e)
                     | Inr team_id \<Rightarrow>
                         (case time_window (env_now env) (arg_days (env_args env)) of
                            Inl e \<Rightarrow> Some (Inl e)
                          | Inr (lookback_days, lookback_utc, since, until) \<Rightarrow>
                              (case get_incidents_for_team ud (env_incidents_api env) team_id since until of
                                 None \<Rightarrow> None
                               | Some (Inl e) \<Rightarrow> Some (Inl e)
                               | Some (Inr v) \<Rightarrow> Some (Inr (team_name, v)))))))"

definition main :: "unicode_data \<Rightarrow> environment \<Rightarrow> outcome option" where
  "main ud env =
     (case fetch_stage ud env of
        None \<Rightarrow> None
      | Some (Inl e) \<Rightarrow> Some (failed env e)
      | Some (Inr (team_name, v)) \<Rightarrow> Some (export_stage ud env team_name (incidents v)))"

section \<open>Notions used to state the shape of the data\<close>

fun object_or_falsy :: "json \<Rightarrow> bool" where
  \<comment> \<open>a nested object that is present as a dictionary, or missing, null or empty\<close>
  "object_or_falsy (JObj kvs) = True"
| "object_or_falsy j = (\<not> truthy j)"

section \<open>Notions used to state the properties of the team resolver\<close>

definition candidate_name :: "unicode_data \<Rightarrow> (ustring \<times> json) list \<Rightarrow> ustring" where
  \<comment> \<open>the display name of a candidate as a text: a string as it is, any other value as
     Python prints it (\<open>None\<close> for null), the empty text when the candidate has no name\<close>
  "candidate_name ud t =
     (case map_of t (ascii ''name'') of
        None \<Rightarrow> []
      | Some (JStr n) \<Rightarrow> n
      | Some x \<Rightarrow> py_repr ud x)"

definition candidate_id :: "unicode_data \<Rightarrow> (ustring \<times> json) list \<Rightarrow> ustring" where
  \<comment> \<open>the id of a candidate as a text: a string as it is, the empty text when the id is
     missing, null, zero, false or empty, any other value as Python prints it\<close>
  "candidate_id ud t =
     (case map_of t (ascii ''id'') of
        None \<Rightarrow> []
      | Some (JStr i) \<Rightarrow> i
      | Some x \<Rightarrow> if truthy x then py_repr ud x else [])"

definition same_ignoring_case :: "unicode_data \<Rightarrow> ustring \<Rightarrow> ustring \<Rightarrow> bool" where
  \<comment> \<open>equal once both are in lower case\<close>
  "same_ignoring_case ud a b = (py_lower ud a = py_lower ud b)"

section \<open>Notions used to state the properties of the resolution enricher\<close>



section \<open>Notions used to state the properties of the fetcher\<close>

definition strip_total_json :: "json \<Rightarrow> json" where
  \<comment> \<open>a decoded page without its top-level \<open>total\<close> field\<close>
  "strip_total_json j =
     (case j of JObj kvs \<Rightarrow> JObj (filter (\<lambda>kv. fst kv \<noteq> ascii ''total'') kvs) | _ \<Rightarrow> j)"

definition strip_total :: "http_result \<Rightarrow> http_result" where
  \<comment> \<open>what is left of a response when the \<open>total\<close> of a page is put aside: of a page
     (status 200) the decoded document without the field, the text that carried it being
     dropped; of any other response the status and the text\<close>
  "strip_total r =
     (case r of
        RequestFailed \<Rightarrow> RequestFailed
      | Response status body decoded \<Rightarrow>
          if status = 200 then Response 200 [] (map_option strip_total_json decoded)
          else Response status body None)"

definition infinite_total :: "(ustring \<times> json) list \<Rightarrow> bool" where
  \<comment> \<open>the page's \<open>total\<close> is a float that is infinite, as \<open>1e999\<close> decodes\<close>
  "infinite_total data =
     (dict_get data (ascii ''total'') JNull = JFloat PosInf
      \<or> dict_get data (ascii ''total'') JNull = JFloat NegInf)"

definition same_but_total :: "fetch_vars \<Rightarrow> fetch_vars \<Rightarrow> bool" where
  \<comment> \<open>two states of the loop that differ at most in the total and the progress shown\<close>
  "same_but_total v w =
     (incidents v = incidents w \<and> offset v = offset w \<and> fetched_count v = fetched_count w
      \<and> requests v = requests w)"

section \<open>Notions used to state the properties of the time window\<close>

definition iso_seconds_z :: "datetime \<Rightarrow> ustring" where
  \<comment> \<open>the form \<open>YYYY-MM-DDTHH:MM:SSZ\<close>: no fraction of a second, a final \<open>Z\<close>\<close>
  "iso_seconds_z dt =
     zero_pad 4 (dt_year dt) @ ascii ''-'' @ zero_pad 2 (dt_month dt) @ ascii ''-''
     @ zero_pad 2 (dt_day dt) @ ascii ''T'' @ zero_pad 2 (dt_hour dt) @ ascii '':''
     @ zero_pad 2 (dt_minute dt) @ ascii '':'' @ zero_pad 2 (dt_second dt) @ ascii ''Z''"

definition same_time_of_day :: "datetime \<Rightarrow> datetime \<Rightarrow> bool" where
  "same_time_of_day a b =
     (dt_hour a = dt_hour b \<and> dt_minute a = dt_minute b \<and> dt_second a = dt_second b
      \<and> dt_microsecond a = dt_microsecond b)"

section \<open>Notions used to state the properties of the exporter\<close>

definition is_resolved :: "(ustring \<times> json) list \<Rightarrow> bool" where
  "is_resolved inc = (dict_get inc (ascii ''status'') JNull = JStr (ascii ''resolved''))"

definition incident_id_of :: "unicode_data \<Rightarrow> (ustring \<times> json) list \<Rightarrow> ustring" where
  "incident_id_of ud inc = py_str ud (dict_get inc (ascii ''id'') (JStr []))"

definition service_name_of :: "(ustring \<times> json) list \<Rightarrow> json" where
  "service_name_of inc =
     (case py_or (dict_get inc (ascii ''service'') JNull) (JObj []) of
        JObj service \<Rightarrow> py_or (py_or (dict_get service (ascii ''summary'') JNull)
                                     (dict_get service (ascii ''name'') JNull)) (JStr (ascii ''N/A''))
      | _ \<Rightarrow> JStr (ascii ''N/A''))"

definition actor_summary :: "(ustring \<times> json) list \<Rightarrow> json" where
  \<comment> \<open>the summary of the incident's \<open>last_status_change_by\<close>; \<open>JNull\<close> when there is none\<close>
  "actor_summary inc =
     (case dict_get inc (ascii ''last_status_change_by'') JNull of
        JObj actor \<Rightarrow> dict_get actor (ascii ''summary'') JNull
      | _ \<Rightarrow> JNull)"

definition enricher_value ::
  "unicode_data \<Rightarrow> (log_query \<Rightarrow> http_result) \<Rightarrow> (ustring \<times> json) list \<Rightarrow> ustring option" where
  \<comment> \<open>the \<open>resolved_by\<close> the enricher returns for the incident, if it returns one\<close>
  "enricher_value ud log_api inc =
     (case get_incident_resolve_metadata ud log_api (incident_id_of ud inc) of
        Inl e \<Rightarrow> None
      | Inr meta \<Rightarrow> meta)"

definition expected_resolved_by ::
  "unicode_data \<Rightarrow> (log_query \<Rightarrow> http_result) \<Rightarrow> (ustring \<times> json) list \<Rightarrow> json" where
  "expected_resolved_by ud log_api inc =
     (if is_resolved inc
      then (case enricher_value ud log_api inc of
              Some s \<Rightarrow> JStr s
            | None \<Rightarrow> if truthy (actor_summary inc) then actor_summary inc
                      else JStr (ascii ''Unknown''))
      else JStr [])"

definition expected_row ::
  "unicode_data \<Rightarrow> (log_query \<Rightarrow> http_result) \<Rightarrow> (ustring \<times> json) list \<Rightarrow> csv_row" where
  "expected_row ud log_api inc =
     incident_row inc (service_name_of inc) (expected_resolved_by ud log_api inc)"

definition incident_record ::
  "unicode_data \<Rightarrow> (log_query \<Rightarrow> http_result) \<Rightarrow> (ustring \<times> json) list \<Rightarrow> bool" where
  \<comment> \<open>an incident as the data model has it (\<open>service\<close> and \<open>last_status_change_by\<close> are
     nested objects or missing) whose enrichment, when it is resolved, raises nothing,
     and whose row has a UTF-8 encoding\<close>
  "incident_record ud log_api inc =
     (object_or_falsy (dict_get inc (ascii ''service'') JNull)
      \<and> object_or_falsy (dict_get inc (ascii ''last_status_change_by'') JNull)
      \<and> (if is_resolved inc
          then \<not> isl (get_incident_resolve_metadata ud log_api (incident_id_of ud inc)) else True)
      \<and> row_encodable ud (expected_row ud log_api inc))"

definition after_row :: "nat \<Rightarrow> csv_row \<Rightarrow> export_vars \<Rightarrow> export_vars" where
  \<comment> \<open>the loop variables after one more row has been written\<close>
  "after_row n row v =
     v\<lparr>rows := rows v @ [row], processed := processed v + 1,
       shown := (if n \<noteq> 0 then shown v @ [(processed v + 1, n)] else shown v),
       bar_printed := (if n \<noteq> 0 then True else bar_printed v)\<rparr>"

definition after_incident ::
  "unicode_data \<Rightarrow> (log_query \<Rightarrow> http_result) \<Rightarrow> nat \<Rightarrow> (ustring \<times> json) list \<Rightarrow> export_vars
     \<Rightarrow> export_vars" where
  \<comment> \<open>the loop variables after the row of one incident has been written\<close>
  "after_incident ud log_api n inc v =
     after_row n (expected_row ud log_api inc)
       (if is_resolved inc then v\<lparr>enriched := enriched v @ [incident_id_of ud inc]\<rparr> else v)"

section \<open>Concrete inputs used below\<close>

text \<open>
  A fragment of the Unicode tables, enough for the runs below: the capitals of Latin-1,
  the dotted capital I and the Kelvin sign have the lower case Unicode gives them, the
  Arabic-Indic digits are decimal digits, the visible characters of Latin-1 are
  printable.
\<close>

definition example_lower :: "nat \<Rightarrow> ustring" where
  "example_lower c =
     (if 0xC0 \<le> c \<and> c \<le> 0xDE \<and> c \<noteq> 0xD7 then [c + 32]
      else if c = 0x130 then [0x69, 0x307]
      else if c = 0x212A then [0x6B]
      else [c])"

definition example_final_sigma :: "ustring \<Rightarrow> ustring \<Rightarrow> bool" where
  "example_final_sigma before after = (before \<noteq> [] \<and> after = [])"

definition example_printable :: "nat \<Rightarrow> bool" where
  "example_printable c = (0xA1 \<le> c \<and> c \<le> 0xFF \<and> c \<noteq> 0xAD)"

definition example_decimal :: "nat \<Rightarrow> nat option" where
  "example_decimal c = (if 0x660 \<le> c \<and> c \<le> 0x669 then Some (c - 0x660) else None)"

definition example_unicode :: unicode_data where
  "example_unicode =
     \<lparr>ud_lower = example_lower, ud_final_sigma = example_final_sigma,
      ud_printable = example_printable, ud_decimal = example_decimal\<rparr>"

definition example_team_id :: ustring where
  "example_team_id = ascii ''PABC123''"

definition example_since :: ustring where
  "example_since = ascii ''2026-05-08T07:00:00Z''"

definition example_until :: ustring where
  "example_until = ascii ''2026-11-04T07:00:00Z''"

subsection \<open>Team searches\<close>

definition teams_api_observability :: "teams_query \<Rightarrow> http_result" where
  \<comment> \<open>a search result with three candidates; the second and the third match
     \<open>observability\<close>\<close>
  "teams_api_observability q =
     Response 200 []
       (Some (JObj [(ascii ''teams'', JList
          [JObj [(ascii ''id'', JStr (ascii ''PXYZ789'')), (ascii ''name'', JStr (ascii ''Observability Tools''))],
           JObj [(ascii ''id'', JStr (ascii ''PABC123'')), (ascii ''name'', JStr (ascii ''Observability''))],
           JObj [(ascii ''id'', JStr (ascii ''PDEF456'')), (ascii ''name'', JStr (ascii ''OBSERVABILITY''))]])]))"

definition teams_api_short_id :: "teams_query \<Rightarrow> http_result" where
  \<comment> \<open>a search result whose only candidate has an id outside the identifier pattern\<close>
  "teams_api_short_id q =
     Response 200 []
       (Some (JObj [(ascii ''teams'', JList
          [JObj [(ascii ''id'', JStr (ascii ''abc'')), (ascii ''name'', JStr (ascii ''Ops''))]])]))"

definition teams_api_odd_candidates :: "teams_query \<Rightarrow> http_result" where
  \<comment> \<open>candidates with a null name, with an accented name and a numeric id, and
     without an id\<close>
  "teams_api_odd_candidates q =
     Response 200 []
       (Some (JObj [(ascii ''teams'', JList
          [JObj [(ascii ''id'', JStr (ascii ''PAAAAAA1'')), (ascii ''name'', JNull)],
           JObj [(ascii ''id'', JInt 1234567), (ascii ''name'', JStr (0xC9 # ascii ''quipe''))],
           JObj [(ascii ''name'', JStr (ascii ''Ops''))]])]))"

subsection \<open>Incident logs\<close>

definition log_api_no_agent :: "log_query \<Rightarrow> http_result" where
  \<comment> \<open>a log whose first resolve entry has an agent without summary and name\<close>
  "log_api_no_agent q =
     Response 200 []
       (Some (JObj [(ascii ''log_entries'', JList
          [JObj [(ascii ''type'', JStr (ascii ''trigger_log_entry'')),
                 (ascii ''agent'', JObj [(ascii ''summary'', JStr (ascii ''Monitoring''))])],
           JObj [(ascii ''type'', JStr (ascii ''resolve_log_entry'')),
                 (ascii ''agent'', JObj [(ascii ''type'', JStr (ascii ''service_reference''))]),
                 (ascii ''channel'', JObj [(ascii ''type'', JStr (ascii ''api''))])],
           JObj [(ascii ''type'', JStr (ascii ''resolve_log_entry'')),
                 (ascii ''agent'', JObj [(ascii ''summary'', JStr (ascii ''Dana''))])]])]))"

definition log_api_not_json :: "log_query \<Rightarrow> http_result" where
  \<comment> \<open>status 200 with a body that is not JSON, as a gateway in between may answer\<close>
  "log_api_not_json q = Response 200 (ascii ''<html>Bad Gateway</html>'') None"


definition log_api_down :: "log_query \<Rightarrow> http_result" where
  \<comment> \<open>the log-entries endpoint cannot be reached\<close>
  "log_api_down q = RequestFailed"

subsection \<open>Incident pages\<close>

definition example_page :: "nat \<Rightarrow> (ustring \<times> json) list" where
  \<comment> \<open>two pages: the first announces a wrong total, the second has neither total nor flag\<close>
  "example_page i =
     (if i = 0
      then [(ascii ''incidents'', JList [JObj [(ascii ''id'', JStr (ascii ''Q1''))],
                                        JObj [(ascii ''id'', JStr (ascii ''Q2''))]]),
            (ascii ''more'', JBool True), (ascii ''total'', JInt 99)]
      else [(ascii ''incidents'', JList [JObj [(ascii ''id'', JStr (ascii ''Q3''))]])])"

definition example_items :: "nat \<Rightarrow> json list" where
  "example_items i =
     (if i = 0 then [JObj [(ascii ''id'', JStr (ascii ''Q1''))], JObj [(ascii ''id'', JStr (ascii ''Q2''))]]
      else [JObj [(ascii ''id'', JStr (ascii ''Q3''))]])"

definition no_body :: "nat \<Rightarrow> ustring" where
  "no_body i = []"

definition incidents_api_two_pages :: "incidents_query \<Rightarrow> http_result" where
  "incidents_api_two_pages q =
     (if iq_offset q = 0 then Response 200 [] (Some (JObj (example_page 0)))
      else if iq_offset q = 100 then Response 200 [] (Some (JObj (example_page 1)))
      else RequestFailed)"

definition two_incidents :: "json list" where
  "two_incidents = [JObj [(ascii ''id'', JStr (ascii ''Q1''))], JObj [(ascii ''id'', JStr (ascii ''Q2''))]]"

definition incidents_api_infinite_total :: "incidents_query \<Rightarrow> http_result" where
  \<comment> \<open>one last page of two incidents whose total is the JSON number \<open>1e999\<close>, which
     \<open>response.json()\<close> decodes as the float infinity\<close>
  \<open>incidents_api_infinite_total q =
     Response 200 (ascii ''{"incidents": [{"id": "Q1"}, {"id": "Q2"}], "more": false, "total": 1e999}'')
       (Some (JObj [(ascii ''incidents'', JList two_incidents), (ascii ''more'', JBool False),
                    (ascii ''total'', JFloat PosInf)]))\<close>

definition incidents_api_text_total :: "incidents_query \<Rightarrow> http_result" where
  \<comment> \<open>the same page with a total that is no number at all\<close>
  \<open>incidents_api_text_total q =
     Response 200 (ascii ''{"incidents": [{"id": "Q1"}, {"id": "Q2"}], "more": false, "total": "many"}'')
       (Some (JObj [(ascii ''incidents'', JList two_incidents), (ascii ''more'', JBool False),
                    (ascii ''total'', JStr (ascii ''many''))]))\<close>

definition incidents_api_without_total :: "incidents_query \<Rightarrow> http_result" where
  \<comment> \<open>a last page of two incidents that reports no total\<close>
  \<open>incidents_api_without_total q =
     Response 200 (ascii ''{"incidents": [{"id": "Q1"}, {"id": "Q2"}], "more": false}'')
       (Some (JObj [(ascii ''incidents'', JList two_incidents), (ascii ''more'', JBool False)]))\<close>

definition incidents_api_overflowing_total :: "incidents_query \<Rightarrow> http_result" where
  \<comment> \<open>the same page reporting the total \<open>-1e999\<close>, decoded as minus infinity\<close>
  \<open>incidents_api_overflowing_total q =
     Response 200 (ascii ''{"incidents": [{"id": "Q1"}, {"id": "Q2"}], "more": false, "total": -1e999}'')
       (Some (JObj [(ascii ''incidents'', JList two_incidents), (ascii ''more'', JBool False),
                    (ascii ''total'', JFloat NegInf)]))\<close>

definition incidents_api_empty :: "incidents_query \<Rightarrow> http_result" where
  \<comment> \<open>the service has no incident in the window\<close>
  "incidents_api_empty q =
     Response 200 []
       (Some (JObj [(ascii ''incidents'', JList []), (ascii ''more'', JBool False),
                    (ascii ''total'', JInt 0)]))"

definition no_page :: "nat \<Rightarrow> json list" where
  "no_page i = []"

definition empty_page :: "nat \<Rightarrow> (ustring \<times> json) list" where
  "empty_page i = [(ascii ''incidents'', JList []), (ascii ''more'', JBool False), (ascii ''total'', JInt 0)]"

subsection \<open>Exports\<close>

definition can_open_all :: "ustring \<Rightarrow> bool" where
  "can_open_all path = True"

definition no_files :: file_system where
  "no_files path = None"

definition incident_blank_actor :: "(ustring \<times> json) list" where
  \<comment> \<open>a resolved incident whose last status change carries an empty summary\<close>
  "incident_blank_actor =
     [(ascii ''id'', JStr (ascii ''Q1'')), (ascii ''status'', JStr (ascii ''resolved'')),
      (ascii ''last_status_change_by'', JObj [(ascii ''summary'', JStr [])])]"

definition example_incidents :: "(ustring \<times> json) list list" where
  "example_incidents =
     [[(ascii ''id'', JStr (ascii ''Q1'')), (ascii ''incident_number'', JInt 17),
       (ascii ''title'', JStr (ascii ''Disk full'')), (ascii ''status'', JStr (ascii ''resolved'')),
       (ascii ''service'', JObj [(ascii ''summary'', JStr (ascii ''Storage''))]),
       (ascii ''last_status_change_by'', JObj [(ascii ''summary'', JStr (ascii ''Sam''))])],
      [(ascii ''id'', JStr (ascii ''Q2'')), (ascii ''incident_number'', JInt 18),
       (ascii ''title'', JStr (ascii ''High latency'')), (ascii ''status'', JStr (ascii ''triggered'')),
       (ascii ''service'', JObj [(ascii ''name'', JStr (ascii ''Gateway''))])]]"

definition incident_surrogate_title :: "(ustring \<times> json) list" where
  \<comment> \<open>an open incident whose title is the lone surrogate U+D83D, which a JSON text
     can hold as an escape and \<open>response.json()\<close> decodes as it is\<close>
  "incident_surrogate_title =
     [(ascii ''id'', JStr (ascii ''Q3'')), (ascii ''title'', JStr [0xD83D]),
      (ascii ''status'', JStr (ascii ''triggered''))]"

definition example_path :: ustring where
  "example_path = ascii ''pagerduty_incidents_ops.csv''"

subsection \<open>Runs of the pipeline\<close>

definition example_now :: datetime where
  "example_now = \<lparr>dt_year = 2026, dt_month = 11, dt_day = 4, dt_hour = 7, dt_minute = 5,
     dt_second = 9, dt_microsecond = 123456\<rparr>"

definition example_env :: environment where
  "example_env =
     \<lparr>env_token = Some (ascii ''secret''),
      env_args = \<lparr>arg_team_name = Some (ascii ''PABC123''), arg_days = 1, arg_output = None\<rparr>,
      env_input = [],
      env_now = example_now,
      env_teams_api = teams_api_observability,
      env_incidents_api = incidents_api_empty,
      env_log_api = log_api_down,
      env_can_open = can_open_all,
      env_files = no_files\<rparr>"

section \<open>Facts about strings\<close>

lemma ascii_eq_iff [simp]: "ascii s = ascii t \<longleftrightarrow> s = t"
proof -
  have "inj (of_char :: char \<Rightarrow> nat)"
    by (rule injI) simp
  then show ?thesis
    unfolding ascii_def by (rule inj_map_eq_map)
qed

lemma ascii_Nil [simp]: "ascii [] = []"
  by (simp add: ascii_def)

lemma ascii_eq_Nil [simp]: "ascii s = [] \<longleftrightarrow> s = []"
  by (simp add: ascii_def)

lemma Nil_eq_ascii [simp]: "[] = ascii s \<longleftrightarrow> s = []"
  by (auto simp: ascii_def)

lemma ascii_underscore: "ascii ''_'' = [95]"
  by (simp add: ascii_def)

section \<open>Verification of the file name sanitiser\<close>

lemma alnum_not_underscore: "is_alnum c \<Longrightarrow> c \<noteq> 95"
  by (auto simp: is_alnum_def is_upper_def is_lower_def is_digit_def)

lemma space_not_alnum: "is_space c \<Longrightarrow> \<not> is_alnum c"
  by (auto simp: is_alnum_def is_upper_def is_lower_def is_digit_def is_space_def)

lemma sub_alnum_prefix:
  "\<forall>c\<in>set w. is_alnum c \<Longrightarrow> sub_non_alnum_runs (w @ r) = w @ sub_non_alnum_runs r"
  by (induction w) auto

lemma sub_split:
  "sub_non_alnum_runs s = takeWhile is_alnum s @ sub_non_alnum_runs (dropWhile is_alnum s)"
proof -
  have "\<forall>c\<in>set (takeWhile is_alnum s). is_alnum c"
    by (auto dest: set_takeWhileD)
  from sub_alnum_prefix [OF this, of "dropWhile is_alnum s"] show ?thesis
    unfolding takeWhile_dropWhile_id .
qed

lemma sub_non_alnum_head:
  "s \<noteq> [] \<Longrightarrow> \<not> is_alnum (hd s) \<Longrightarrow>
   sub_non_alnum_runs s = 95 # sub_non_alnum_runs (dropWhile (\<lambda>x. \<not> is_alnum x) s)"
  by (cases s) auto

lemma alnum_words_Nil: "dropWhile (\<lambda>x. \<not> is_alnum x) s = [] \<Longrightarrow> alnum_words s = []"
  by (subst alnum_words.simps) (simp only: list.case)

lemma alnum_words_Cons:
  "dropWhile (\<lambda>x. \<not> is_alnum x) s = c # cs \<Longrightarrow>
   alnum_words s = takeWhile is_alnum (c # cs) # alnum_words (dropWhile is_alnum (c # cs))"
  by (subst alnum_words.simps) (simp only: list.case)

lemma alnum_words_skip:
  "alnum_words (dropWhile (\<lambda>x. \<not> is_alnum x) s) = alnum_words s"
  by (subst alnum_words.simps, subst (2) alnum_words.simps) simp

lemma alnum_words_lead:
  "\<forall>c\<in>set a. \<not> is_alnum c \<Longrightarrow> alnum_words (a @ s) = alnum_words s"
  by (subst alnum_words.simps, subst (2) alnum_words.simps) (simp add: dropWhile_append)

lemma takeWhile_trail: "takeWhile P t = [] \<Longrightarrow> takeWhile P (a @ t) = takeWhile P a"
  by (induction a) auto

lemma dropWhile_trail: "dropWhile P t = t \<Longrightarrow> dropWhile P (a @ t) = dropWhile P a @ t"
  by (induction a) auto

lemma alnum_words_trail:
  "\<forall>c\<in>set t. \<not> is_alnum c \<Longrightarrow> alnum_words (s @ t) = alnum_words s"
proof (induction s rule: alnum_words.induct)
  case (1 s)
  let ?d = "dropWhile (\<lambda>x. \<not> is_alnum x) s"
  have tN: "takeWhile is_alnum t = []" "dropWhile is_alnum t = t"
    using 1(2) by (cases t; simp)+
  show ?case
  proof (cases ?d)
    case Nil
    then have "dropWhile (\<lambda>x. \<not> is_alnum x) (s @ t) = []"
      using 1(2) by (simp add: dropWhile_append)
    with Nil show ?thesis
      by (simp add: alnum_words_Nil)
  next
    case (Cons c cs)
    then have ex: "\<not> (\<forall>x\<in>set s. \<not> is_alnum x)"
      by (metis dropWhile_eq_Nil_conv list.distinct(1))
    then have d: "dropWhile (\<lambda>x. \<not> is_alnum x) (s @ t) = c # (cs @ t)"
      using Cons by (auto simp: dropWhile_append)
    have tk: "takeWhile is_alnum (c # (cs @ t)) = takeWhile is_alnum (c # cs)"
      using takeWhile_trail [OF tN(1), of "c # cs"] by simp
    have dr: "dropWhile is_alnum (c # (cs @ t)) = dropWhile is_alnum (c # cs) @ t"
      using dropWhile_trail [OF tN(2), of "c # cs"] by simp
    have ih: "alnum_words (dropWhile is_alnum (c # cs) @ t) = alnum_words (dropWhile is_alnum (c # cs))"
      using 1(1) [OF Cons 1(2)] .
    have "alnum_words (s @ t) = takeWhile is_alnum (c # cs) # alnum_words (dropWhile is_alnum (c # cs))"
      by (simp only: alnum_words_Cons [OF d] tk dr ih)
    also have "\<dots> = alnum_words s"
      by (simp only: alnum_words_Cons [OF Cons])
    finally show ?thesis .
  qed
qed

lemma rstrip_us_append:
  "rstrip_us (a @ b) = (if rstrip_us b = [] then rstrip_us a else a @ rstrip_us b)"
  by (auto simp: rstrip_us_def dropWhile_append)

lemma rstrip_us_alnum: "w \<noteq> [] \<Longrightarrow> is_alnum (last w) \<Longrightarrow> rstrip_us w = w"
  using alnum_not_underscore [of "last w"]
  by (cases w rule: rev_cases) (auto simp: rstrip_us_def)


lemma dropWhile_non_alnum_hd:
  "dropWhile (\<lambda>x. \<not> is_alnum x) s = c # cs \<Longrightarrow> is_alnum c"
  using hd_dropWhile [of "\<lambda>x. \<not> is_alnum x" s] by auto

lemma join_with_Cons:
  "join_with sep (v # vs) = v @ (if vs = [] then [] else sep @ join_with sep vs)"
  by (cases vs) auto

lemma alnum_words_hd_nonempty: "alnum_words s = v # vs \<Longrightarrow> v \<noteq> []"
proof (cases "dropWhile (\<lambda>x. \<not> is_alnum x) s")
  case Nil
  assume "alnum_words s = v # vs"
  with alnum_words_Nil [OF Nil] show ?thesis by simp
next
  case (Cons c cs)
  assume "alnum_words s = v # vs"
  with alnum_words_Cons [OF Cons] dropWhile_non_alnum_hd [OF Cons] show ?thesis
    by auto
qed

lemma rstrip_us_sub:
  "rstrip_us (sub_non_alnum_runs (dropWhile (\<lambda>x. \<not> is_alnum x) s)) =
   join_with [95] (alnum_words s)"
proof (induction s rule: alnum_words.induct)
  case (1 s)
  let ?d = "dropWhile (\<lambda>x. \<not> is_alnum x) s"
  show ?case
  proof (cases ?d)
    case Nil
    have "alnum_words s = []"
      by (rule alnum_words_Nil [OF Nil])
    then show ?thesis
      unfolding Nil by (simp add: rstrip_us_def)
  next
    case (Cons c cs)
    let ?w = "takeWhile is_alnum (c # cs)"
    let ?r = "dropWhile is_alnum (c # cs)"
    have c: "is_alnum c"
      by (rule dropWhile_non_alnum_hd [OF Cons])
    then have w: "?w \<noteq> []" by simp
    have "last ?w \<in> set ?w"
      using w by (rule last_in_set)
    then have "is_alnum (last ?w)"
      by (auto dest: set_takeWhileD)
    with w have rw: "rstrip_us ?w = ?w"
      by (rule rstrip_us_alnum)
    have ws: "alnum_words s = ?w # alnum_words ?r"
      by (rule alnum_words_Cons [OF Cons])
    have sub: "sub_non_alnum_runs (c # cs) = ?w @ sub_non_alnum_runs ?r"
      by (rule sub_split)
    have ih: "rstrip_us (sub_non_alnum_runs (dropWhile (\<lambda>x. \<not> is_alnum x) ?r)) =
        join_with [95] (alnum_words ?r)"
      by (rule 1 [OF Cons])
    show ?thesis
    proof (cases "?r = []")
      case True
      then have "alnum_words ?r = []"
        by (simp add: alnum_words_Nil)
      with True show ?thesis
        by (simp only: Cons sub ws rw join_with.simps sub_non_alnum_runs.simps(1) append_Nil2)
    next
      case False
      then have "\<not> is_alnum (hd ?r)"
        by (rule hd_dropWhile)
      with False have "sub_non_alnum_runs ?r =
          95 # sub_non_alnum_runs (dropWhile (\<lambda>x. \<not> is_alnum x) ?r)"
        by (rule sub_non_alnum_head)
      then have sr: "sub_non_alnum_runs ?r =
          [95] @ sub_non_alnum_runs (dropWhile (\<lambda>x. \<not> is_alnum x) ?r)"
        by (simp only: append_Cons append_Nil)
      have us: "rstrip_us [95] = []"
        by (simp add: rstrip_us_def)
      show ?thesis
      proof (cases "alnum_words ?r")
        case Nil
        then show ?thesis
          by (simp only: \<open>?d = c # cs\<close> sub sr ws rstrip_us_append ih Nil join_with.simps us rw) simp
      next
        case (Cons v vs)
        then have "v \<noteq> []"
          by (rule alnum_words_hd_nonempty)
        then have ne: "join_with [95] (v # vs) \<noteq> []"
          by (simp add: join_with_Cons)
        have "rstrip_us (sub_non_alnum_runs (c # cs)) = ?w @ [95] @ join_with [95] (v # vs)"
          using ne by (simp only: sub sr rstrip_us_append ih Cons) simp
        then show ?thesis
          by (simp only: \<open>?d = c # cs\<close> ws Cons join_with.simps)
      qed
    qed
  qed
qed


lemma lstrip_us_alnum_start:
  "t = [] \<or> is_alnum (hd t) \<Longrightarrow>
   dropWhile (\<lambda>c. c = 95) (sub_non_alnum_runs t) = sub_non_alnum_runs t"
  using alnum_not_underscore by (cases t) auto

lemma lstrip_us_sub:
  "dropWhile (\<lambda>c. c = 95) (sub_non_alnum_runs s) =
   sub_non_alnum_runs (dropWhile (\<lambda>x. \<not> is_alnum x) s)"
proof (cases s)
  case Nil
  then show ?thesis by simp
next
  case (Cons c cs)
  show ?thesis
  proof (cases "is_alnum c")
    case True
    with Cons lstrip_us_alnum_start [of s] show ?thesis by simp
  next
    case False
    let ?t = "dropWhile (\<lambda>x. \<not> is_alnum x) cs"
    have "?t = [] \<or> is_alnum (hd ?t)"
      using hd_dropWhile [of "\<lambda>x. \<not> is_alnum x" cs] by auto
    from lstrip_us_alnum_start [OF this] False Cons show ?thesis by simp
  qed
qed

lemma strip_us_sub:
  "py_strip_chars [95] (sub_non_alnum_runs s) = join_with [95] (alnum_words s)"
  using rstrip_us_sub [of s]
  by (simp add: py_strip_chars_def strip_where_def lstrip_us_sub rstrip_us_def)

lemma py_strip_decomp:
  "\<exists>a b. name = a @ py_strip name @ b \<and> (\<forall>c\<in>set a. is_space c) \<and> (\<forall>c\<in>set b. is_space c)"
proof -
  let ?a = "takeWhile is_space name"
  let ?rest = "dropWhile is_space name"
  let ?b = "rev (takeWhile is_space (rev ?rest))"
  have "rev ?rest = takeWhile is_space (rev ?rest) @ dropWhile is_space (rev ?rest)"
    by simp
  then have "rev (rev ?rest) = rev (takeWhile is_space (rev ?rest) @ dropWhile is_space (rev ?rest))"
    by (rule arg_cong)
  then have "?rest = py_strip name @ ?b"
    by (simp only: rev_rev_ident rev_append py_strip_def strip_where_def)
  then have "name = ?a @ py_strip name @ ?b"
    by (metis takeWhile_dropWhile_id)
  moreover have "\<forall>c\<in>set ?a. is_space c" "\<forall>c\<in>set ?b. is_space c"
    by (auto dest: set_takeWhileD)
  ultimately show ?thesis by blast
qed

subsection \<open>Lower case keeps the words\<close>

lemma takeWhile_alnum_related:
  "list_all2 (\<lambda>c d. c = d \<or> (\<not> is_alnum c \<and> \<not> is_alnum d)) s t \<Longrightarrow>
   takeWhile is_alnum s = takeWhile is_alnum t"
  by (induction rule: list_all2_induct) auto

lemma dropWhile_alnum_related:
  "list_all2 (\<lambda>c d. c = d \<or> (\<not> is_alnum c \<and> \<not> is_alnum d)) s t \<Longrightarrow>
   list_all2 (\<lambda>c d. c = d \<or> (\<not> is_alnum c \<and> \<not> is_alnum d))
     (dropWhile is_alnum s) (dropWhile is_alnum t)"
  by (induction rule: list_all2_induct) auto

lemma dropWhile_non_alnum_related:
  "list_all2 (\<lambda>c d. c = d \<or> (\<not> is_alnum c \<and> \<not> is_alnum d)) s t \<Longrightarrow>
   list_all2 (\<lambda>c d. c = d \<or> (\<not> is_alnum c \<and> \<not> is_alnum d))
     (dropWhile (\<lambda>x. \<not> is_alnum x) s) (dropWhile (\<lambda>x. \<not> is_alnum x) t)"
  by (induction rule: list_all2_induct) auto

lemma alnum_words_related:
  "list_all2 (\<lambda>c d. c = d \<or> (\<not> is_alnum c \<and> \<not> is_alnum d)) s t \<Longrightarrow>
   alnum_words s = alnum_words t"
proof (induction s arbitrary: t rule: alnum_words.induct)
  case (1 s)
  let ?R = "\<lambda>c d. c = d \<or> (\<not> is_alnum c \<and> \<not> is_alnum d)"
  let ?ds = "dropWhile (\<lambda>x. \<not> is_alnum x) s" and ?dt = "dropWhile (\<lambda>x. \<not> is_alnum x) t"
  have rel: "list_all2 ?R ?ds ?dt"
    using 1(2) by (rule dropWhile_non_alnum_related)
  show ?case
  proof (cases ?ds)
    case Nil
    with rel have "?dt = []" by simp
    with Nil show ?thesis
      by (simp add: alnum_words_Nil)
  next
    case (Cons c cs)
    with rel obtain d ds where dt: "?dt = d # ds"
      by (cases ?dt) auto
    have tk: "takeWhile is_alnum (c # cs) = takeWhile is_alnum (d # ds)"
      using rel unfolding Cons dt by (rule takeWhile_alnum_related)
    have "list_all2 ?R (dropWhile is_alnum (c # cs)) (dropWhile is_alnum (d # ds))"
      using rel unfolding Cons dt by (rule dropWhile_alnum_related)
    then have "alnum_words (dropWhile is_alnum (c # cs)) = alnum_words (dropWhile is_alnum (d # ds))"
      by (rule 1(1) [OF Cons])
    then show ?thesis
      by (simp only: alnum_words_Cons [OF Cons] alnum_words_Cons [OF dt] tk)
  qed
qed

lemma lower_at_related:
  "list_all2 (\<lambda>c d. c = d \<or> (\<not> is_alnum c \<and> \<not> is_alnum d))
     (lower_at ud p c r) (lower_at ud p' c r')"
  by (simp add: lower_at_def list_all2_refl is_alnum_def is_upper_def is_lower_def is_digit_def)

lemma lower_from_context:
  "\<exists>x. lower_from ud p (s @ t) = x @ lower_from ud (p @ s) t
      \<and> list_all2 (\<lambda>c d. c = d \<or> (\<not> is_alnum c \<and> \<not> is_alnum d)) x (lower_from ud p' s)"
proof (induction s arbitrary: p p')
  case Nil
  then show ?case by simp
next
  case (Cons c cs)
  let ?R = "\<lambda>c d. c = d \<or> (\<not> is_alnum c \<and> \<not> is_alnum d)"
  from Cons [of "p @ [c]" "p' @ [c]"] obtain x where
    x: "lower_from ud (p @ [c]) (cs @ t) = x @ lower_from ud ((p @ [c]) @ cs) t"
    "list_all2 ?R x (lower_from ud (p' @ [c]) cs)"
    by blast
  have "lower_from ud p ((c # cs) @ t) =
      (lower_at ud p c (cs @ t) @ x) @ lower_from ud (p @ c # cs) t"
    using x(1) by simp
  moreover have "list_all2 ?R (lower_at ud p c (cs @ t) @ x) (lower_from ud p' (c # cs))"
    using lower_at_related [of ud p c "cs @ t" p' cs] x(2)
    by (simp add: list_all2_appendI)
  ultimately show ?case by blast
qed

lemma lower_at_space: "is_space c \<Longrightarrow> lower_at ud p c r = [c]"
  by (auto simp: lower_at_def lower_char_def is_space_def is_upper_def)

lemma lower_from_spaces:
  "\<forall>c\<in>set a. is_space c \<Longrightarrow> lower_from ud p (a @ s) = a @ lower_from ud (p @ a) s"
  by (induction a arbitrary: p) (simp_all add: lower_at_space)

lemma alnum_words_py_strip:
  "alnum_words (py_lower ud (py_strip name)) = alnum_words (py_lower ud name)"
proof -
  let ?R = "\<lambda>c d. c = d \<or> (\<not> is_alnum c \<and> \<not> is_alnum d)"
  obtain a b where n: "name = a @ py_strip name @ b"
    and a: "\<forall>c\<in>set a. is_space c" and b: "\<forall>c\<in>set b. is_space c"
    using py_strip_decomp by blast
  let ?m = "py_strip name"
  obtain x where x: "lower_from ud a (?m @ b) = x @ lower_from ud (a @ ?m) b"
    "list_all2 ?R x (lower_from ud [] ?m)"
    using lower_from_context [of ud a ?m b "[]"] by blast
  have "lower_from ud [] (a @ ?m @ b) = a @ lower_from ud a (?m @ b)"
    using lower_from_spaces [OF a, of ud "[]" "?m @ b"] by simp
  moreover have "lower_from ud (a @ ?m) b = b"
    using lower_from_spaces [OF b, of ud "a @ ?m" "[]"] by simp
  ultimately have "py_lower ud (a @ ?m @ b) = a @ x @ b"
    using x(1) by (simp add: py_lower_def)
  then have "py_lower ud name = a @ x @ b"
    using n by simp
  moreover have "\<forall>c\<in>set a. \<not> is_alnum c" "\<forall>c\<in>set b. \<not> is_alnum c"
    using a b by (auto dest: space_not_alnum)
  ultimately have "alnum_words (py_lower ud name) = alnum_words x"
    by (simp only: alnum_words_lead alnum_words_trail)
  also have "\<dots> = alnum_words (lower_from ud [] ?m)"
    using x(2) by (rule alnum_words_related)
  finally show ?thesis
    by (simp add: py_lower_def)
qed

lemma sanitize_refines:
  "sanitize_filename_component ud name = sanitize_spec ud name"
proof -
  have "py_strip_chars [95] (sub_non_alnum_runs (py_lower ud (py_strip name))) =
      join_with [95] (alnum_words (py_lower ud name))"
    by (simp only: strip_us_sub alnum_words_py_strip)
  moreover have "alnum_words (py_lower ud name) \<noteq> [] \<Longrightarrow>
      join_with [95] (alnum_words (py_lower ud name)) \<noteq> []"
    by (cases "alnum_words (py_lower ud name)")
       (auto simp: join_with_Cons dest: alnum_words_hd_nonempty)
  ultimately show ?thesis
    by (auto simp: sanitize_filename_component_def sanitize_spec_def Let_def ascii_underscore)
qed

lemmas sanitize_unfold =
  sanitize_filename_component_def ascii_def py_strip_def py_strip_chars_def strip_where_def
  py_lower_def lower_at_def lower_char_def is_space_def is_alnum_def is_upper_def is_lower_def
  is_digit_def

lemma sanitize_examples:
  "sanitize_filename_component ud (ascii ''Platform SRE!!'') = ascii ''platform_sre''"
  "sanitize_filename_component ud (ascii ''   '') = ascii ''team''"
  "sanitize_filename_component ud (ascii ''Team-42'') = ascii ''team_42''"
  by (simp_all add: sanitize_unfold)

lemma sanitize_unicode_examples:
  "sanitize_filename_component example_unicode [0x212A] = ascii ''k''"
  "sanitize_filename_component example_unicode (0x130 # ascii ''stanbul'') = ascii ''i_stanbul''"
  "sanitize_filename_component example_unicode (0xA0 # ascii ''Ops'' @ [0x2003]) = ascii ''ops''"
  by (simp_all add: sanitize_unfold example_unicode_def example_lower_def)

text \<open>
  Claim C5. For every input string, \<open>sanitize_filename_component\<close> lower-cases it,
  collapses each run of non-alphanumeric characters to a single underscore, trims the
  underscores from both ends and returns the token \<open>team\<close> when nothing is left: the
  result is the lower-cased name's alphanumeric words joined by single underscores,
  alphanumeric being the letters \<open>A\<close> to \<open>Z\<close>, \<open>a\<close> to \<open>z\<close> and the digits. This holds
  for every string of Unicode characters and whatever the Unicode tables say. In
  particular \<open>Platform SRE!!\<close> gives \<open>platform_sre\<close>, three spaces give \<open>team\<close>, and
  \<open>Team-42\<close> gives \<open>team_42\<close>.
\<close>

theorem sanitize_filename_component_correct:
  "sanitize_filename_component ud name = sanitize_spec ud name
   \<and> sanitize_filename_component ud (ascii ''Platform SRE!!'') = ascii ''platform_sre''
   \<and> sanitize_filename_component ud (ascii ''   '') = ascii ''team''
   \<and> sanitize_filename_component ud (ascii ''Team-42'') = ascii ''team_42''"
  by (intro conjI sanitize_refines sanitize_examples)

section \<open>Verification of the team resolver\<close>

lemma team_name_matches_candidate:
  "team_name_matches ud name t = same_ignoring_case ud (candidate_name ud t) name"
proof -
  have "py_str ud (dict_get t (ascii ''name'') (JStr [])) = candidate_name ud t"
  proof (cases "map_of t (ascii ''name'')")
    case None
    then show ?thesis
      by (simp add: dict_get_def candidate_name_def)
  next
    case (Some x)
    then show ?thesis
      by (cases x) (simp_all add: dict_get_def candidate_name_def)
  qed
  then show ?thesis
    by (simp add: team_name_matches_def same_ignoring_case_def)
qed

lemma team_id_text_candidate: "team_id_text ud t = candidate_id ud t"
proof (cases "map_of t (ascii ''id'')")
  case None
  then show ?thesis
    by (simp add: team_id_text_def dict_get_def candidate_id_def py_or_def)
next
  case (Some x)
  then show ?thesis
    by (cases x) (simp_all add: team_id_text_def dict_get_def candidate_id_def py_or_def)
qed

lemma find_team_objects:
  "find_team ud name (map JObj teams) =
     (case find (\<lambda>t. same_ignoring_case ud (candidate_name ud t) name) teams of
        None \<Rightarrow> Inl (TeamNotFound name)
      | Some t \<Rightarrow> validate_team_id (candidate_id ud t))"
  by (induction teams) (simp_all add: team_name_matches_candidate team_id_text_candidate)

lemma get_team_id_by_name_objects:
  assumes "teams_api \<lparr>tq_query = name, tq_limit = 100\<rparr> = Response 200 body (Some (JObj data))"
    and "dict_get data (ascii ''teams'') (JList []) = JList (map JObj teams)"
  shows "get_team_id_by_name ud teams_api name = find_team ud name (map JObj teams)"
proof (cases "data = []")
  case True
  with assms(2) have "teams = []"
    by (simp add: dict_get_def)
  with True assms(1) show ?thesis
    by (simp add: get_team_id_by_name_def py_or_def dict_get_def)
next
  case False
  with assms show ?thesis
    by (simp add: get_team_id_by_name_def py_or_def)
qed

lemma not_id_Nil: "\<not> is_pagerduty_team_id []"
  by (simp add: is_pagerduty_team_id_def)

text \<open>
  Claim C6, as the code has it. For every team name and every successful first-page
  search result whose candidates are objects, \<open>get_team_id_by_name\<close> takes the first
  candidate, in the order of the response, whose name equals the queried name once both
  are in lower case; a name that is not a string is compared through the text Python
  prints for it (\<open>None\<close> for null), a missing name as the empty text. The id of that
  candidate is taken as a text (a string as it is, a number as printed, the empty text
  when it is missing, null or otherwise empty): the function returns this text when it
  is a well-formed identifier and fails with \<open>InvalidIdentifier\<close> otherwise. When no
  candidate matches it fails with \<open>TeamNotFound\<close>.
\<close>

theorem get_team_id_by_name_first_match:
  assumes "teams_api \<lparr>tq_query = name, tq_limit = 100\<rparr> = Response 200 body (Some (JObj data))"
    and "dict_get data (ascii ''teams'') (JList []) = JList (map JObj teams)"
  shows "(find (\<lambda>t. same_ignoring_case ud (candidate_name ud t) name) teams = None \<longrightarrow>
            get_team_id_by_name ud teams_api name = Inl (TeamNotFound name))
       \<and> (\<forall>t. find (\<lambda>t. same_ignoring_case ud (candidate_name ud t) name) teams = Some t \<longrightarrow>
              get_team_id_by_name ud teams_api name =
                (if is_pagerduty_team_id (candidate_id ud t) then Inr (candidate_id ud t)
                 else Inl (InvalidIdentifier (candidate_id ud t))))"
  unfolding get_team_id_by_name_objects [of teams_api name body data teams ud, OF assms]
    find_team_objects
  by (auto simp: validate_team_id_def not_id_Nil)

lemmas resolver_unfold =
  same_ignoring_case_def candidate_name_def candidate_id_def py_lower_def lower_at_def
  lower_char_def is_upper_def is_pagerduty_team_id_def is_id_char_def is_digit_def ascii_def

theorem get_team_id_by_name_first_match_witness:
  "get_team_id_by_name example_unicode teams_api_observability (ascii ''observability'') =
     Inr (ascii ''PABC123'')"
proof -
  let ?tools = "[(ascii ''id'', JStr (ascii ''PXYZ789'')), (ascii ''name'', JStr (ascii ''Observability Tools''))]"
  let ?team = "[(ascii ''id'', JStr (ascii ''PABC123'')), (ascii ''name'', JStr (ascii ''Observability''))]"
  let ?loud = "[(ascii ''id'', JStr (ascii ''PDEF456'')), (ascii ''name'', JStr (ascii ''OBSERVABILITY''))]"
  have api: "teams_api_observability \<lparr>tq_query = ascii ''observability'', tq_limit = 100\<rparr> =
      Response 200 [] (Some (JObj [(ascii ''teams'', JList [JObj ?tools, JObj ?team, JObj ?loud])]))"
    by (simp add: teams_api_observability_def)
  have teams: "dict_get [(ascii ''teams'', JList [JObj ?tools, JObj ?team, JObj ?loud])]
        (ascii ''teams'') (JList []) = JList (map JObj [?tools, ?team, ?loud])"
    by (simp add: dict_get_def)
  have found: "find (\<lambda>t. same_ignoring_case example_unicode (candidate_name example_unicode t)
        (ascii ''observability'')) [?tools, ?team, ?loud] = Some ?team"
    by (simp add: resolver_unfold)
  have id: "candidate_id example_unicode ?team = ascii ''PABC123''"
    by (simp add: candidate_id_def)
  have valid: "is_pagerduty_team_id (ascii ''PABC123'')"
    by (simp add: resolver_unfold)
  from get_team_id_by_name_first_match [of teams_api_observability "ascii ''observability''"
      "[]" _ "[?tools, ?team, ?loud]" example_unicode, OF api teams]
    found id valid show ?thesis
    by simp
qed

theorem get_team_id_by_name_invalid_id_counterexample:
  "get_team_id_by_name example_unicode teams_api_short_id (ascii ''ops'') =
     Inl (InvalidIdentifier (ascii ''abc''))
   \<and> get_team_id_by_name example_unicode teams_api_short_id (ascii ''ops'') \<noteq> Inr (ascii ''abc'')"
  by (simp add: get_team_id_by_name_def teams_api_short_id_def py_or_def dict_get_def
      team_name_matches_def team_id_text_def validate_team_id_def py_lower_def lower_at_def
      lower_char_def is_upper_def is_pagerduty_team_id_def ascii_def)

lemma get_team_id_by_name_odd_candidates:
  "get_team_id_by_name example_unicode teams_api_odd_candidates (ascii ''NONE'') =
     Inr (ascii ''PAAAAAA1'')"
  "get_team_id_by_name example_unicode teams_api_odd_candidates (0xE9 # ascii ''quipe'') =
     Inr (ascii ''1234567'')"
  "get_team_id_by_name example_unicode teams_api_odd_candidates (ascii ''ops'') =
     Inl (InvalidIdentifier [])"
  "get_team_id_by_name example_unicode teams_api_odd_candidates (ascii ''sre'') =
     Inl (TeamNotFound (ascii ''sre''))"
  by (simp_all add: get_team_id_by_name_def teams_api_odd_candidates_def py_or_def dict_get_def
      team_name_matches_def team_id_text_def validate_team_id_def py_lower_def lower_at_def
      lower_char_def is_upper_def is_space_def is_pagerduty_team_id_def is_id_char_def
      is_digit_def ascii_def example_unicode_def example_lower_def str_int_def dec_digits.simps
      digit_char_def)

section \<open>Facts about Python values\<close>

lemma as_dict_or_empty: "as_dict (py_or (JObj d) (JObj [])) = Inr d"
  by (simp add: py_or_def)

lemma as_dict_or_empty_cases:
  "as_dict (py_or j (JObj [])) = Inr d \<Longrightarrow> (j = JObj d) \<or> (\<not> truthy j \<and> d = [])"
  by (cases j) (auto simp: py_or_def split: if_splits)

lemma as_dict_object_or_falsy:
  "object_or_falsy j \<Longrightarrow> \<exists>d. as_dict (py_or j (JObj [])) = Inr d"
  by (cases j) (auto simp: py_or_def)

lemma dec_digits_nonempty: "dec_digits n \<noteq> []"
  by (subst dec_digits.simps) simp

lemma repr_float_nonempty: "repr_float f \<noteq> []"
  by (cases f) simp_all

lemma py_str_nonempty: "truthy x \<Longrightarrow> py_str ud x \<noteq> []"
  by (cases x) (simp_all add: str_int_def dec_digits_nonempty repr_str_def repr_float_nonempty)

lemma digit_char_is_digit: "d < 10 \<Longrightarrow> is_digit (digit_char d)"
  by (simp add: is_digit_def digit_char_def)

lemma dec_digits_digits: "c \<in> set (dec_digits n) \<Longrightarrow> is_digit c"
proof (induction n arbitrary: c rule: dec_digits.induct)
  case (1 n)
  show ?case
  proof (cases "n < 10")
    case True
    with 1(2) dec_digits.simps [of n] show ?thesis
      by (simp add: digit_char_is_digit)
  next
    case False
    with 1(2) dec_digits.simps [of n]
    have "c \<in> set (dec_digits (n div 10)) \<or> c = digit_char (n mod 10)"
      by auto
    with 1(1) [OF False] show ?thesis
      by (auto simp: digit_char_is_digit)
  qed
qed

lemma str_int_encodable: "utf8_encodable (str_int i)"
  by (auto simp: utf8_encodable_def str_int_def list_all_iff is_surrogate_def is_digit_def
      dest!: dec_digits_digits)

lemma ascii_encodable: "utf8_encodable (ascii s)"
proof -
  have "\<not> is_surrogate (of_char c)" for c :: char
    unfolding is_surrogate_def using nat_of_char_less_256 [of c] by linarith
  then show ?thesis
    by (simp add: utf8_encodable_def ascii_def list_all_iff)
qed

lemma csv_text_encodable [simp]:
  "utf8_encodable (csv_text ud (JInt i))"
  "utf8_encodable (csv_text ud (JStr (ascii s)))"
  "utf8_encodable (csv_text ud (JStr []))"
  by (simp_all add: csv_text_def str_int_encodable ascii_encodable) (simp add: utf8_encodable_def)

lemmas int_unfold =
  int_literal_def to_ascii_digits_def strip_where_def is_c_space_def is_space_def is_digit_def
  digits_value_def max_str_digits_def ascii_def

lemma int_literal_examples:
  "int_literal ud (ascii '' 42 '') = Some 42"
  "int_literal ud (ascii ''-1_000'') = Some (- 1000)"
  "int_literal ud (ascii ''many'') = None"
  "int_literal ud [0x1C, 53] = None"
  "int_literal example_unicode [0xA0, 53] = Some 5"
  "int_literal example_unicode [0x661, 0x662] = Some 12"
  by (simp_all add: int_unfold example_unicode_def example_decimal_def)

lemma py_trunc_examples: "py_trunc (5 / 2) = 2" "py_trunc (- (5 / 2)) = - 2"
proof -
  have "\<lfloor>5 / 2 :: rat\<rfloor> = 2"
    by (rule floor_unique) simp_all
  then show "py_trunc (5 / 2) = 2"
    by (simp add: py_trunc_def)
  have "\<lceil>- (5 / 2) :: rat\<rceil> = - 2"
    by (rule ceiling_unique) simp_all
  then show "py_trunc (- (5 / 2)) = - 2"
    by (simp add: py_trunc_def)
qed

lemma py_int_examples:
  "py_int ud (JFloat PosInf) = Inl OverflowError"
  "py_int ud (JFloat NegInf) = Inl OverflowError"
  "py_int ud (JFloat NaN) = Inr None"
  "py_int ud (JFloat (Finite (5 / 2) 50 (ascii ''.5''))) = Inr (Some 2)"
  "py_int ud (JFloat (Finite (- (5 / 2)) 45 (ascii ''2.5''))) = Inr (Some (- 2))"
  "py_int ud (JBool True) = Inr (Some 1)"
  "py_int ud (JList []) = Inr None"
  by (simp_all add: py_trunc_examples)

section \<open>Verification of the resolution enricher\<close>











section \<open>Verification of the paginated fetcher\<close>

lemma read_total_finite:
  "\<not> infinite_total data \<Longrightarrow> \<exists>count. read_total ud data = Inr count"
proof (cases "dict_get data (ascii ''total'') JNull")
  case (JFloat f)
  assume "\<not> infinite_total data"
  with JFloat show ?thesis
    by (cases f) (simp_all add: read_total_def infinite_total_def)
qed (simp_all add: read_total_def)

lemma read_total_infinite:
  "infinite_total data \<Longrightarrow> read_total ud data = Inl OverflowError"
  by (auto simp: read_total_def infinite_total_def)

lemma fetch_page_ok:
  assumes "api (page_query t s u (offset v)) = Response 200 body (Some (JObj data))"
    and "py_iter (dict_get data (ascii ''incidents'') (JList [])) = Inr items"
    and "\<not> infinite_total data"
  shows "\<exists>v'. fetch_page ud api t s u v =
             Inr (truthy (dict_get data (ascii ''more'') (JBool False)), v')
           \<and> incidents v' = incidents v @ items
           \<and> requests v' = requests v @ [page_query t s u (offset v)]
           \<and> offset v' = (if truthy (dict_get data (ascii ''more'') (JBool False))
                           then offset v + limit else offset v)
           \<and> fetched_count v' = fetched_count v + length items"
proof -
  from read_total_finite [OF assms(3)] obtain count where "read_total ud data = Inr count"
    by blast
  with assms(1,2) show ?thesis
    by (simp add: fetch_page_def Let_def as_dict_or_empty split: option.splits)
qed

lemma fetch_page_infinite_total:
  assumes "api (page_query t s u (offset v)) = Response 200 body (Some (JObj data))"
    and "py_iter (dict_get data (ascii ''incidents'') (JList [])) = Inr items"
    and "infinite_total data"
    and "total_count v = None"
  shows "fetch_page ud api t s u v = Inl OverflowError"
  using assms
  by (simp add: fetch_page_def Let_def as_dict_or_empty read_total_infinite)

lemma fetch_loop_run:
  fixes pages :: "nat \<Rightarrow> json list" and datas :: "nat \<Rightarrow> (ustring \<times> json) list"
    and bodies :: "nat \<Rightarrow> ustring"
  assumes "\<forall>i. j \<le> i \<and> i \<le> j + n \<longrightarrow>
      api (page_query t s u (limit * i)) = Response 200 (bodies i) (Some (JObj (datas i)))
      \<and> py_iter (dict_get (datas i) (ascii ''incidents'') (JList [])) = Inr (pages i)
      \<and> \<not> infinite_total (datas i)"
    and "\<forall>i. j \<le> i \<and> i < j + n \<longrightarrow> truthy (dict_get (datas i) (ascii ''more'') (JBool False))"
    and "\<not> truthy (dict_get (datas (j + n)) (ascii ''more'') (JBool False))"
    and "offset v = limit * j"
  shows "\<exists>v'. fetch_loop ud api t s u v = Some (Inr v')
           \<and> incidents v' = incidents v @ concat (map pages [j..<Suc (j + n)])
           \<and> requests v' = requests v @ map (\<lambda>i. page_query t s u (limit * i)) [j..<Suc (j + n)]"
  using assms
proof (induction n arbitrary: j v)
  case 0
  from 0(1) have ok: "api (page_query t s u (offset v)) = Response 200 (bodies j) (Some (JObj (datas j)))"
    "py_iter (dict_get (datas j) (ascii ''incidents'') (JList [])) = Inr (pages j)"
    "\<not> infinite_total (datas j)"
    by (simp_all add: 0(4))
  from fetch_page_ok [of api t s u v _ _ _ ud, OF ok] 0(3) obtain v' where
    "fetch_page ud api t s u v = Inr (False, v')" "incidents v' = incidents v @ pages j"
    "requests v' = requests v @ [page_query t s u (offset v)]"
    by auto
  then show ?case
    by (subst fetch_loop.simps) (simp add: 0(4))
next
  case (Suc n)
  from Suc(2) have ok: "api (page_query t s u (offset v)) = Response 200 (bodies j) (Some (JObj (datas j)))"
    "py_iter (dict_get (datas j) (ascii ''incidents'') (JList [])) = Inr (pages j)"
    "\<not> infinite_total (datas j)"
    by (simp_all add: Suc(5))
  have more: "truthy (dict_get (datas j) (ascii ''more'') (JBool False))"
    using Suc(3) by simp
  from fetch_page_ok [of api t s u v _ _ _ ud, OF ok] more obtain v1 where v1:
    "fetch_page ud api t s u v = Inr (True, v1)" "incidents v1 = incidents v @ pages j"
    "requests v1 = requests v @ [page_query t s u (offset v)]"
    "offset v1 = limit * Suc j"
    by (auto simp: Suc(5))
  have "\<exists>v'. fetch_loop ud api t s u v1 = Some (Inr v')
           \<and> incidents v' = incidents v1 @ concat (map pages [Suc j..<Suc (Suc j + n)])
           \<and> requests v' = requests v1 @ map (\<lambda>i. page_query t s u (limit * i)) [Suc j..<Suc (Suc j + n)]"
  proof (rule Suc.IH)
    show "\<forall>i. Suc j \<le> i \<and> i \<le> Suc j + n \<longrightarrow>
      api (page_query t s u (limit * i)) = Response 200 (bodies i) (Some (JObj (datas i)))
      \<and> py_iter (dict_get (datas i) (ascii ''incidents'') (JList [])) = Inr (pages i)
      \<and> \<not> infinite_total (datas i)"
      using Suc(2) by simp
    show "\<forall>i. Suc j \<le> i \<and> i < Suc j + n \<longrightarrow> truthy (dict_get (datas i) (ascii ''more'') (JBool False))"
      using Suc(3) by simp
    show "\<not> truthy (dict_get (datas (Suc j + n)) (ascii ''more'') (JBool False))"
      using Suc(4) by simp
    show "offset v1 = limit * Suc j" by (rule v1(4))
  qed
  then obtain v' where v': "fetch_loop ud api t s u v1 = Some (Inr v')"
    "incidents v' = incidents v1 @ concat (map pages [Suc j..<Suc (Suc j + n)])"
    "requests v' = requests v1 @ map (\<lambda>i. page_query t s u (limit * i)) [Suc j..<Suc (Suc j + n)]"
    by blast
  have up: "[j..<Suc (j + Suc n)] = j # [Suc j..<Suc (Suc j + n)]"
    by (simp add: upt_conv_Cons)
  have "fetch_loop ud api t s u v = fetch_loop ud api t s u v1"
    by (subst fetch_loop.simps) (simp add: v1(1))
  with v' v1 show ?case
    unfolding up by (simp add: Suc(5))
qed

lemma fetch_loop_forever:
  fixes datas :: "nat \<Rightarrow> (ustring \<times> json) list" and pages :: "nat \<Rightarrow> json list"
    and bodies :: "nat \<Rightarrow> ustring"
  assumes "\<forall>i. api (page_query t s u (limit * i)) = Response 200 (bodies i) (Some (JObj (datas i)))
      \<and> py_iter (dict_get (datas i) (ascii ''incidents'') (JList [])) = Inr (pages i)
      \<and> \<not> infinite_total (datas i)
      \<and> truthy (dict_get (datas i) (ascii ''more'') (JBool False))"
  shows "offset v = limit * j \<Longrightarrow> fetch_loop ud api t s u v = None"
proof -
  have "d = ud \<and> a = api \<and> t' = t \<and> s' = s \<and> u' = u \<and> (\<exists>j. offset v = limit * j) \<longrightarrow> False"
    if "fetch_loop d a t' s' u' v = Some r" for d a t' s' u' v r
  proof (rule fetch_loop.raw_induct [where P = "\<lambda>d a t' s' u' v r.
      d = ud \<and> a = api \<and> t' = t \<and> s' = s \<and> u' = u \<and> (\<exists>j. offset v = limit * j) \<longrightarrow> False",
      OF _ that])
    fix loop d a t' s' u' v r
    assume ih: "\<And>d a t' s' u' v r. loop d a t' s' u' v = Some r \<Longrightarrow>
        d = ud \<and> a = api \<and> t' = t \<and> s' = s \<and> u' = u \<and> (\<exists>j. offset v = limit * j) \<longrightarrow> False"
      and step: "(case fetch_page d a t' s' u' v of Inl e \<Rightarrow> Some (Inl e)
          | Inr (again, v') \<Rightarrow> if again then loop d a t' s' u' v' else Some (Inr v')) = Some r"
    show "d = ud \<and> a = api \<and> t' = t \<and> s' = s \<and> u' = u \<and> (\<exists>j. offset v = limit * j) \<longrightarrow> False"
    proof (intro impI, elim conjE exE)
      fix j
      assume eq: "d = ud" "a = api" "t' = t" "s' = s" "u' = u" and off: "offset v = limit * j"
      from assms have ok: "api (page_query t s u (offset v)) = Response 200 (bodies j) (Some (JObj (datas j)))"
        "py_iter (dict_get (datas j) (ascii ''incidents'') (JList [])) = Inr (pages j)"
        "\<not> infinite_total (datas j)"
        and more: "truthy (dict_get (datas j) (ascii ''more'') (JBool False))"
        by (simp_all add: off)
      from fetch_page_ok [of api t s u v _ _ _ ud, OF ok] more obtain v1 where v1:
        "fetch_page ud api t s u v = Inr (True, v1)" "offset v1 = limit * Suc j"
        by (auto simp: off)
      from step have "loop ud api t s u v1 = Some r"
        by (simp add: eq v1(1))
      from ih [OF this] v1(2) show False
        by blast
    qed
  qed
  then show "offset v = limit * j \<Longrightarrow> fetch_loop ud api t s u v = None"
    by (cases "fetch_loop ud api t s u v") blast+
qed

lemma page_query_limit:
  "page_query t s u (limit * i) =
     \<lparr>iq_team_ids = [t], iq_since = s, iq_until = u, iq_limit = 100, iq_offset = 100 * i,
      iq_total = ascii ''true''\<rparr>"
  by (simp add: page_query_def limit_def)

text \<open>
  What the loop does when no page carries an infinite \<open>total\<close>. Let the team id be
  valid. When the pages at offsets 0, 100, ..., 100 k are delivered (status 200, an
  object holding the incidents) and page k is the first whose \<open>more\<close> flag is false or
  absent, \<open>get_incidents_for_team\<close> returns after exactly these k + 1 requests, each
  with limit 100 and the offset advanced by 100, and the sequence returned is the pages'
  incidents in order, so that its length is the sum of the pages' sizes. When every
  page is delivered with a true \<open>more\<close> flag the function never returns.
\<close>

lemma get_incidents_for_team_pages:
  fixes api :: "incidents_query \<Rightarrow> http_result"
    and pages :: "nat \<Rightarrow> json list" and datas :: "nat \<Rightarrow> (ustring \<times> json) list"
    and bodies :: "nat \<Rightarrow> ustring" and team_id since until :: ustring
  defines "request \<equiv> \<lambda>i. \<lparr>iq_team_ids = [team_id], iq_since = since, iq_until = until,
      iq_limit = 100, iq_offset = 100 * i, iq_total = ascii ''true''\<rparr>"
  defines "page_ok \<equiv> \<lambda>i. api (request i) = Response 200 (bodies i) (Some (JObj (datas i)))
      \<and> py_iter (dict_get (datas i) (ascii ''incidents'') (JList [])) = Inr (pages i)
      \<and> \<not> infinite_total (datas i)"
  defines "has_more \<equiv> \<lambda>i. truthy (dict_get (datas i) (ascii ''more'') (JBool False))"
  assumes valid: "validate_team_id team_id = Inr team_id"
  shows "(\<forall>k. (\<forall>i\<le>k. page_ok i) \<longrightarrow> (\<forall>i<k. has_more i) \<longrightarrow> \<not> has_more k \<longrightarrow>
            (\<exists>v. get_incidents_for_team ud api team_id since until = Some (Inr v)
               \<and> incidents v = concat (map pages [0..<Suc k])
               \<and> length (incidents v) = sum_list (map (\<lambda>i. length (pages i)) [0..<Suc k])
               \<and> requests v = map request [0..<Suc k]))
       \<and> ((\<forall>i. page_ok i \<and> has_more i) \<longrightarrow>
            get_incidents_for_team ud api team_id since until = None)"
proof (intro conjI allI impI)
  fix k
  assume ok: "\<forall>i\<le>k. page_ok i" and more: "\<forall>i<k. has_more i" and stop: "\<not> has_more k"
  have "\<exists>v'. fetch_loop ud api team_id since until fetch_init = Some (Inr v')
           \<and> incidents v' = incidents fetch_init @ concat (map pages [0..<Suc (0 + k)])
           \<and> requests v' = requests fetch_init @
                 map (\<lambda>i. page_query team_id since until (limit * i)) [0..<Suc (0 + k)]"
  proof (rule fetch_loop_run [where bodies = bodies and datas = datas])
    show "\<forall>i. 0 \<le> i \<and> i \<le> 0 + k \<longrightarrow>
        api (page_query team_id since until (limit * i)) = Response 200 (bodies i) (Some (JObj (datas i)))
        \<and> py_iter (dict_get (datas i) (ascii ''incidents'') (JList [])) = Inr (pages i)
        \<and> \<not> infinite_total (datas i)"
      using ok by (simp add: page_ok_def request_def page_query_limit)
    show "\<forall>i. 0 \<le> i \<and> i < 0 + k \<longrightarrow> truthy (dict_get (datas i) (ascii ''more'') (JBool False))"
      using more by (simp add: has_more_def)
    show "\<not> truthy (dict_get (datas (0 + k)) (ascii ''more'') (JBool False))"
      using stop by (simp add: has_more_def)
    show "offset fetch_init = limit * 0"
      by (simp add: fetch_init_def)
  qed
  then obtain v where v: "fetch_loop ud api team_id since until fetch_init = Some (Inr v)"
    "incidents v = concat (map pages [0..<Suc k])"
    "requests v = map (\<lambda>i. page_query team_id since until (limit * i)) [0..<Suc k]"
    by (auto simp: fetch_init_def)
  have "get_incidents_for_team ud api team_id since until = Some (Inr v)"
    by (simp add: get_incidents_for_team_def valid v(1))
  moreover have "length (incidents v) = sum_list (map (\<lambda>i. length (pages i)) [0..<Suc k])"
    unfolding v(2) length_concat by (simp add: comp_def)
  moreover have "requests v = map request [0..<Suc k]"
    unfolding v(3) by (simp add: request_def page_query_limit)
  ultimately show "\<exists>v. get_incidents_for_team ud api team_id since until = Some (Inr v)
      \<and> incidents v = concat (map pages [0..<Suc k])
      \<and> length (incidents v) = sum_list (map (\<lambda>i. length (pages i)) [0..<Suc k])
      \<and> requests v = map request [0..<Suc k]"
    using v(2) by blast
next
  assume all: "\<forall>i. page_ok i \<and> has_more i"
  have "fetch_loop ud api team_id since until fetch_init = None"
  proof (rule fetch_loop_forever [where bodies = bodies and datas = datas and pages = pages and j = 0])
    show "\<forall>i. api (page_query team_id since until (limit * i)) = Response 200 (bodies i) (Some (JObj (datas i)))
        \<and> py_iter (dict_get (datas i) (ascii ''incidents'') (JList [])) = Inr (pages i)
        \<and> \<not> infinite_total (datas i)
        \<and> truthy (dict_get (datas i) (ascii ''more'') (JBool False))"
      using all by (simp add: page_ok_def has_more_def request_def page_query_limit)
    show "offset fetch_init = limit * 0"
      by (simp add: fetch_init_def)
  qed
  then show "get_incidents_for_team ud api team_id since until = None"
    by (simp add: get_incidents_for_team_def valid)
qed

lemma example_team_id_valid: "validate_team_id example_team_id = Inr example_team_id"
  by (simp add: validate_team_id_def example_team_id_def is_pagerduty_team_id_def is_id_char_def
      is_upper_def is_digit_def ascii_def)

lemma get_incidents_for_team_two_pages:
  "returned_incidents
     (get_incidents_for_team example_unicode incidents_api_two_pages example_team_id
        example_since example_until) =
   Some (Inr [JObj [(ascii ''id'', JStr (ascii ''Q1''))], JObj [(ascii ''id'', JStr (ascii ''Q2''))],
              JObj [(ascii ''id'', JStr (ascii ''Q3''))]])"
proof -
  note first = get_incidents_for_team_pages [where api = incidents_api_two_pages
      and datas = example_page and pages = example_items and bodies = no_body
      and since = example_since and until = example_until and ud = example_unicode,
      OF example_team_id_valid, THEN conjunct1, THEN spec, of "Suc 0"]
  have ok: "\<forall>i\<le>Suc 0.
      incidents_api_two_pages
        \<lparr>iq_team_ids = [example_team_id], iq_since = example_since,
         iq_until = example_until, iq_limit = 100, iq_offset = 100 * i,
         iq_total = ascii ''true''\<rparr> =
      Response 200 (no_body i) (Some (JObj (example_page i))) \<and>
      py_iter (dict_get (example_page i) (ascii ''incidents'') (JList [])) = Inr (example_items i) \<and>
      \<not> infinite_total (example_page i)"
    by (auto simp: le_Suc_eq incidents_api_two_pages_def no_body_def example_page_def
        example_items_def dict_get_def infinite_total_def)
  have more: "\<forall>i<Suc 0. truthy (dict_get (example_page i) (ascii ''more'') (JBool False))"
    by (simp add: example_page_def dict_get_def)
  have stop: "\<not> truthy (dict_get (example_page (Suc 0)) (ascii ''more'') (JBool False))"
    by (simp add: example_page_def dict_get_def)
  from first ok more stop obtain v where
    "get_incidents_for_team example_unicode incidents_api_two_pages example_team_id
        example_since example_until = Some (Inr v)"
    "incidents v = concat (map example_items [0..<Suc (Suc 0)])"
    by blast
  then show ?thesis
    by (simp add: returned_incidents_def example_items_def)
qed

lemma get_incidents_for_team_one_page:
  assumes "validate_team_id team_id = Inr team_id"
    and "api (page_query team_id since until 0) = Response 200 body (Some (JObj data))"
    and "py_iter (dict_get data (ascii ''incidents'') (JList [])) = Inr items"
    and "\<not> truthy (dict_get data (ascii ''more'') (JBool False))"
  shows "returned_incidents (get_incidents_for_team ud api team_id since until) =
     Some (if infinite_total data then Inl OverflowError else Inr items)"
proof (cases "infinite_total data")
  case True
  have "fetch_page ud api team_id since until fetch_init = Inl OverflowError"
    by (rule fetch_page_infinite_total [OF _ assms(3) True]) (simp_all add: fetch_init_def assms(2))
  then have "fetch_loop ud api team_id since until fetch_init = Some (Inl OverflowError)"
    by (subst fetch_loop.simps) simp
  with True assms(1) show ?thesis
    by (simp add: get_incidents_for_team_def returned_incidents_def)
next
  case False
  have "\<exists>v'. fetch_page ud api team_id since until fetch_init =
             Inr (truthy (dict_get data (ascii ''more'') (JBool False)), v')
           \<and> incidents v' = incidents fetch_init @ items
           \<and> requests v' = requests fetch_init @ [page_query team_id since until (offset fetch_init)]
           \<and> offset v' = (if truthy (dict_get data (ascii ''more'') (JBool False))
                           then offset fetch_init + limit else offset fetch_init)
           \<and> fetched_count v' = fetched_count fetch_init + length items"
    by (rule fetch_page_ok [OF _ assms(3) False]) (simp add: fetch_init_def assms(2))
  with assms(4) obtain v' where v':
    "fetch_page ud api team_id since until fetch_init = Inr (False, v')" "incidents v' = items"
    by (auto simp: fetch_init_def)
  then have "fetch_loop ud api team_id since until fetch_init = Some (Inr v')"
    by (subst fetch_loop.simps) simp
  with False assms(1) v'(2) show ?thesis
    by (simp add: get_incidents_for_team_def returned_incidents_def)
qed

text \<open>
  Claim C1 at the input where the code departs from it. The service answers the first
  request with a last page of two incidents (\<open>more\<close> is false) whose \<open>total\<close> is
  the JSON number \<open>1e999\<close>. The claim has the fetcher return these two incidents,
  whatever the total; the code ends with the \<open>OverflowError\<close> that \<open>int\<close> raises
  on an infinite float and that \<open>except (ValueError, TypeError)\<close> does not catch. For
  the same page with a total that is no number, where \<open>int\<close> raises \<open>ValueError\<close>, the
  two incidents are returned.
\<close>

theorem get_incidents_for_team_infinite_total:
  "returned_incidents
     (get_incidents_for_team example_unicode incidents_api_infinite_total example_team_id
        example_since example_until) = Some (Inl OverflowError)
   \<and> returned_incidents
     (get_incidents_for_team example_unicode incidents_api_text_total example_team_id
        example_since example_until) = Some (Inr two_incidents)
   \<and> length two_incidents = 2"
proof (intro conjI)
  let ?inf = "[(ascii ''incidents'', JList two_incidents), (ascii ''more'', JBool False),
      (ascii ''total'', JFloat PosInf)]"
  let ?txt = "[(ascii ''incidents'', JList two_incidents), (ascii ''more'', JBool False),
      (ascii ''total'', JStr (ascii ''many''))]"
  have "returned_incidents (get_incidents_for_team example_unicode incidents_api_infinite_total
      example_team_id example_since example_until) =
      Some (if infinite_total ?inf then Inl OverflowError else Inr two_incidents)"
    by (rule get_incidents_for_team_one_page [OF example_team_id_valid])
       (simp_all add: incidents_api_infinite_total_def dict_get_def)
  then show "returned_incidents (get_incidents_for_team example_unicode incidents_api_infinite_total
      example_team_id example_since example_until) = Some (Inl OverflowError)"
    by (simp add: infinite_total_def dict_get_def)
  have "returned_incidents (get_incidents_for_team example_unicode incidents_api_text_total
      example_team_id example_since example_until) =
      Some (if infinite_total ?txt then Inl OverflowError else Inr two_incidents)"
    by (rule get_incidents_for_team_one_page [OF example_team_id_valid])
       (simp_all add: incidents_api_text_total_def dict_get_def)
  then show "returned_incidents (get_incidents_for_team example_unicode incidents_api_text_total
      example_team_id example_since example_until) = Some (Inr two_incidents)"
    by (simp add: infinite_total_def dict_get_def)
  show "length two_incidents = 2"
    by (simp add: two_incidents_def)
qed

subsection \<open>The total and the result\<close>

lemma dict_get_filter_total:
  "k \<noteq> ascii ''total'' \<Longrightarrow>
   dict_get (filter (\<lambda>kv. fst kv \<noteq> ascii ''total'') kvs) k d = dict_get kvs k d"
  by (induction kvs) (auto simp: dict_get_def)

lemma infinite_total_nonempty: "infinite_total d \<Longrightarrow> d \<noteq> []"
  by (auto simp: infinite_total_def dict_get_def)

lemma strip_total_json_dicts:
  assumes "strip_total_json j1 = strip_total_json j2"
  shows "rel_sum (=)
     (\<lambda>d1 d2. filter (\<lambda>kv. fst kv \<noteq> ascii ''total'') d1 = filter (\<lambda>kv. fst kv \<noteq> ascii ''total'') d2
        \<and> (d1 \<noteq> [] \<longrightarrow> j1 = JObj d1) \<and> (d2 \<noteq> [] \<longrightarrow> j2 = JObj d2))
     (as_dict (py_or j1 (JObj []))) (as_dict (py_or j2 (JObj [])))"
  using assms by (cases j1; cases j2) (auto simp: strip_total_json_def py_or_def)

lemma strip_total_cases:
  assumes "strip_total r1 = strip_total r2"
  shows "(r1 = RequestFailed \<and> r2 = RequestFailed)
       \<or> (\<exists>st b o1 o2. st \<noteq> 200 \<and> r1 = Response st b o1 \<and> r2 = Response st b o2)
       \<or> (\<exists>b1 b2. r1 = Response 200 b1 None \<and> r2 = Response 200 b2 None)
       \<or> (\<exists>b1 b2 j1 j2. r1 = Response 200 b1 (Some j1) \<and> r2 = Response 200 b2 (Some j2)
            \<and> strip_total_json j1 = strip_total_json j2)"
proof (cases r1)
  case RequestFailed
  with assms show ?thesis
    by (cases r2) (simp_all add: strip_total_def split: if_splits)
next
  case r1: (Response st1 b1 o1)
  with assms obtain st2 b2 o2 where r2: "r2 = Response st2 b2 o2"
    by (cases r2) (simp_all add: strip_total_def split: if_splits)
  show ?thesis
  proof (cases "st1 = 200")
    case False
    with assms r1 r2 show ?thesis
      by (simp add: strip_total_def split: if_splits)
  next
    case True
    with assms r1 r2 have st2: "st2 = 200"
      and o: "map_option strip_total_json o1 = map_option strip_total_json o2"
      by (simp_all add: strip_total_def split: if_splits)
    show ?thesis
    proof (cases o1)
      case None
      with o r1 r2 True st2 show ?thesis by simp
    next
      case (Some j1)
      with o obtain j2 where "o2 = Some j2" "strip_total_json j1 = strip_total_json j2"
        by (cases o2) simp_all
      with r1 r2 True st2 Some show ?thesis by simp
    qed
  qed
qed

lemma fetch_page_decoded:
  assumes "api (page_query t s u (offset v)) = Response 200 body (Some j)"
    and "as_dict (py_or j (JObj [])) = Inr data"
    and "py_iter (dict_get data (ascii ''incidents'') (JList [])) = Inr items"
    and "\<not> infinite_total data"
  shows "\<exists>v'. fetch_page ud api t s u v =
             Inr (truthy (dict_get data (ascii ''more'') (JBool False)), v')
           \<and> incidents v' = incidents v @ items
           \<and> requests v' = requests v @ [page_query t s u (offset v)]
           \<and> offset v' = (if truthy (dict_get data (ascii ''more'') (JBool False))
                           then offset v + limit else offset v)
           \<and> fetched_count v' = fetched_count v + length items"
proof -
  from read_total_finite [OF assms(4)] obtain count where "read_total ud data = Inr count"
    by blast
  with assms(1-3) show ?thesis
    by (simp add: fetch_page_def Let_def split: option.splits)
qed

lemma fetch_page_errors:
  "api (page_query t s u (offset v)) = RequestFailed \<Longrightarrow>
     fetch_page ud api t s u v = Inl TransportError"
  "api (page_query t s u (offset v)) = Response st b decoded \<Longrightarrow> st \<noteq> 200 \<Longrightarrow>
     fetch_page ud api t s u v = Inl (ServiceError b)"
  "api (page_query t s u (offset v)) = Response 200 b None \<Longrightarrow>
     fetch_page ud api t s u v = Inl JSONDecodeError"
  "api (page_query t s u (offset v)) = Response 200 b (Some j) \<Longrightarrow>
     as_dict (py_or j (JObj [])) = Inl e \<Longrightarrow> fetch_page ud api t s u v = Inl e"
  "api (page_query t s u (offset v)) = Response 200 b (Some j) \<Longrightarrow>
     as_dict (py_or j (JObj [])) = Inr data \<Longrightarrow>
     py_iter (dict_get data (ascii ''incidents'') (JList [])) = Inl e \<Longrightarrow>
     fetch_page ud api t s u v = Inl e"
  by (simp_all add: fetch_page_def Let_def)

lemma fetch_page_same:
  assumes agree: "strip_total (api1 (page_query t s u (offset v1))) =
           strip_total (api2 (page_query t s u (offset v1)))"
    and same: "same_but_total v1 v2"
    and fin1: "\<And>b d. api1 (page_query t s u (offset v1)) = Response 200 b (Some (JObj d)) \<Longrightarrow>
        \<not> infinite_total d"
    and fin2: "\<And>b d. api2 (page_query t s u (offset v1)) = Response 200 b (Some (JObj d)) \<Longrightarrow>
        \<not> infinite_total d"
  shows "rel_sum (=) (\<lambda>p1 p2. fst p1 = fst p2 \<and> same_but_total (snd p1) (snd p2))
           (fetch_page ud api1 t s u v1) (fetch_page ud api2 t s u v2)"
proof -
  let ?q = "page_query t s u (offset v1)"
  have off: "offset v2 = offset v1"
    using same by (simp add: same_but_total_def)
  from strip_total_cases [OF agree] show ?thesis
  proof (elim disjE exE conjE)
    assume "api1 ?q = RequestFailed" "api2 ?q = RequestFailed"
    then show ?thesis
      by (simp add: fetch_page_errors off)
  next
    fix st b o1 o2
    assume "st \<noteq> 200" "api1 ?q = Response st b o1" "api2 ?q = Response st b o2"
    then show ?thesis
      by (simp add: fetch_page_errors(2) off)
  next
    fix b1 b2
    assume "api1 ?q = Response 200 b1 None" "api2 ?q = Response 200 b2 None"
    then show ?thesis
      by (simp add: fetch_page_errors(3) off)
  next
    fix b1 b2 j1 j2
    assume r1: "api1 ?q = Response 200 b1 (Some j1)" and r2: "api2 ?q = Response 200 b2 (Some j2)"
      and j: "strip_total_json j1 = strip_total_json j2"
    from r2 have r2': "api2 (page_query t s u (offset v2)) = Response 200 b2 (Some j2)"
      by (simp add: off)
    note rel = strip_total_json_dicts [OF j]
    show ?thesis
    proof (cases "as_dict (py_or j1 (JObj []))")
      case (Inl e)
      with rel have "as_dict (py_or j2 (JObj [])) = Inl e"
        by (cases "as_dict (py_or j2 (JObj []))") simp_all
      with Inl r1 r2' show ?thesis
        by (simp add: fetch_page_errors(4))
    next
      case (Inr d1)
      with rel obtain d2 where d2: "as_dict (py_or j2 (JObj [])) = Inr d2"
        and f: "filter (\<lambda>kv. fst kv \<noteq> ascii ''total'') d1 = filter (\<lambda>kv. fst kv \<noteq> ascii ''total'') d2"
        and o1: "d1 \<noteq> [] \<longrightarrow> j1 = JObj d1" and o2: "d2 \<noteq> [] \<longrightarrow> j2 = JObj d2"
        by (cases "as_dict (py_or j2 (JObj []))") simp_all
      have g: "dict_get d1 k d = dict_get d2 k d" if "k \<noteq> ascii ''total''" for k d
        using dict_get_filter_total [OF that, of d1 d] dict_get_filter_total [OF that, of d2 d] f
        by simp
      have i: "dict_get d1 (ascii ''incidents'') (JList []) = dict_get d2 (ascii ''incidents'') (JList [])"
        and m: "dict_get d1 (ascii ''more'') (JBool False) = dict_get d2 (ascii ''more'') (JBool False)"
        by (rule g; simp)+
      show ?thesis
      proof (cases "py_iter (dict_get d1 (ascii ''incidents'') (JList []))")
        case (Inl e)
        then have "fetch_page ud api1 t s u v1 = Inl e" "fetch_page ud api2 t s u v2 = Inl e"
          using r1 r2' Inr d2 i by (simp_all add: fetch_page_errors(5))
        then show ?thesis by simp
      next
        case items: (Inr items)
        have n1: "\<not> infinite_total d1"
          using fin1 [of b1 d1] r1 o1 infinite_total_nonempty [of d1] by auto
        have n2: "\<not> infinite_total d2"
          using fin2 [of b2 d2] r2 o2 infinite_total_nonempty [of d2] by auto
        from fetch_page_decoded [of api1 t s u v1 b1 j1 d1 items ud, OF r1 Inr items n1]
        obtain w1 where w1: "fetch_page ud api1 t s u v1 =
            Inr (truthy (dict_get d1 (ascii ''more'') (JBool False)), w1)"
          "incidents w1 = incidents v1 @ items"
          "requests w1 = requests v1 @ [page_query t s u (offset v1)]"
          "offset w1 = (if truthy (dict_get d1 (ascii ''more'') (JBool False))
                        then offset v1 + limit else offset v1)"
          "fetched_count w1 = fetched_count v1 + length items"
          by blast
        from items i have items2: "py_iter (dict_get d2 (ascii ''incidents'') (JList [])) = Inr items"
          by simp
        from fetch_page_decoded [of api2 t s u v2 b2 j2 d2 items ud, OF r2' d2 items2 n2]
        obtain w2 where w2: "fetch_page ud api2 t s u v2 =
            Inr (truthy (dict_get d2 (ascii ''more'') (JBool False)), w2)"
          "incidents w2 = incidents v2 @ items"
          "requests w2 = requests v2 @ [page_query t s u (offset v2)]"
          "offset w2 = (if truthy (dict_get d2 (ascii ''more'') (JBool False))
                        then offset v2 + limit else offset v2)"
          "fetched_count w2 = fetched_count v2 + length items"
          by blast
        from w1 w2 same show ?thesis
          by (simp add: same_but_total_def m)
      qed
    qed
  qed
qed

lemma fetch_loop_same:
  assumes agree: "\<forall>q. strip_total (api1 q) = strip_total (api2 q)"
    and fin1: "\<forall>q b d. api1 q = Response 200 b (Some (JObj d)) \<longrightarrow> \<not> infinite_total d"
    and fin2: "\<forall>q b d. api2 q = Response 200 b (Some (JObj d)) \<longrightarrow> \<not> infinite_total d"
    and run: "fetch_loop ud api1 t s u v1 = Some r1"
    and same: "same_but_total v1 v2"
  shows "\<exists>r2. fetch_loop ud api2 t s u v2 = Some r2 \<and> rel_sum (=) same_but_total r1 r2"
proof -
  let ?P = "\<lambda>d a t' s' u' v1 r1. d = ud \<and> a = api1 \<and> t' = t \<and> s' = s \<and> u' = u \<longrightarrow>
      (\<forall>v2. same_but_total v1 v2 \<longrightarrow>
         (\<exists>r2. fetch_loop ud api2 t s u v2 = Some r2 \<and> rel_sum (=) same_but_total r1 r2))"
  have "?P ud api1 t s u v1 r1"
  proof (rule fetch_loop.raw_induct [where P = ?P, OF _ run])
    fix loop d a t' s' u' v1 r1
    assume ih: "\<And>d a t' s' u' v1 r1. loop d a t' s' u' v1 = Some r1 \<Longrightarrow> ?P d a t' s' u' v1 r1"
      and step: "(case fetch_page d a t' s' u' v1 of Inl e \<Rightarrow> Some (Inl e)
          | Inr (again, v') \<Rightarrow> if again then loop d a t' s' u' v' else Some (Inr v')) = Some r1"
    show "?P d a t' s' u' v1 r1"
    proof (intro impI allI, elim conjE)
      fix v2
      assume eq: "d = ud" "a = api1" "t' = t" "s' = s" "u' = u" and same: "same_but_total v1 v2"
      have rel: "rel_sum (=) (\<lambda>p1 p2. fst p1 = fst p2 \<and> same_but_total (snd p1) (snd p2))
           (fetch_page ud api1 t s u v1) (fetch_page ud api2 t s u v2)"
        using agree same fin1 fin2 by (intro fetch_page_same) simp_all
      show "\<exists>r2. fetch_loop ud api2 t s u v2 = Some r2 \<and> rel_sum (=) same_but_total r1 r2"
      proof (cases "fetch_page ud api1 t s u v1")
        case (Inl e)
        with rel have "fetch_page ud api2 t s u v2 = Inl e"
          by (cases "fetch_page ud api2 t s u v2") simp_all
        then have "fetch_loop ud api2 t s u v2 = Some (Inl e)"
          by (subst fetch_loop.simps) simp
        moreover from step Inl have "r1 = Inl e"
          by (simp add: eq)
        ultimately show ?thesis by simp
      next
        case (Inr p)
        obtain b w1 where p: "p = (b, w1)" by (cases p)
        from rel Inr p obtain w2 where p2: "fetch_page ud api2 t s u v2 = Inr (b, w2)"
          and w: "same_but_total w1 w2"
          by (cases "fetch_page ud api2 t s u v2") auto
        show ?thesis
        proof (cases b)
          case True
          with step Inr p have "loop ud api1 t s u w1 = Some r1"
            by (simp add: eq)
          from ih [OF this] w obtain r2 where
            "fetch_loop ud api2 t s u w2 = Some r2" "rel_sum (=) same_but_total r1 r2"
            by blast
          moreover have "fetch_loop ud api2 t s u v2 = fetch_loop ud api2 t s u w2"
            by (subst fetch_loop.simps) (simp add: p2 True)
          ultimately show ?thesis by simp
        next
          case False
          with step Inr p have "r1 = Inr w1"
            by (simp add: eq)
          moreover have "fetch_loop ud api2 t s u v2 = Some (Inr w2)"
            by (subst fetch_loop.simps) (simp add: p2 False)
          ultimately show ?thesis using w by simp
        qed
      qed
    qed
  qed
  with same show ?thesis by blast
qed

lemma fetch_loop_independent_of_total:
  assumes agree: "\<forall>q. strip_total (api1 q) = strip_total (api2 q)"
    and fin1: "\<forall>q b d. api1 q = Response 200 b (Some (JObj d)) \<longrightarrow> \<not> infinite_total d"
    and fin2: "\<forall>q b d. api2 q = Response 200 b (Some (JObj d)) \<longrightarrow> \<not> infinite_total d"
  shows "rel_option (rel_sum (=) same_but_total)
           (fetch_loop ud api1 t s u fetch_init) (fetch_loop ud api2 t s u fetch_init)"
proof -
  have refl: "same_but_total fetch_init fetch_init"
    by (simp add: same_but_total_def)
  from agree have agree': "\<forall>q. strip_total (api2 q) = strip_total (api1 q)"
    by simp
  show ?thesis
  proof (cases "fetch_loop ud api1 t s u fetch_init")
    case None
    have "fetch_loop ud api2 t s u fetch_init = None"
    proof (cases "fetch_loop ud api2 t s u fetch_init")
      case (Some r2)
      from fetch_loop_same [OF agree' fin2 fin1 Some refl] None show ?thesis by simp
    qed simp
    with None show ?thesis by simp
  next
    case (Some r1)
    from fetch_loop_same [OF agree fin1 fin2 Some refl] Some show ?thesis by auto
  qed
qed

text \<open>
  What holds of the total when no page carries an infinite one. When two services
  answer every request with responses that are identical except for the top-level
  \<open>total\<close> field of a page, the two runs of \<open>get_incidents_for_team\<close> agree on
  everything but the progress shown: both run for ever, or both end with the same
  error, or both return the same incidents in the same order after sending the same
  requests.
\<close>

lemma get_incidents_for_team_ignores_finite_total:
  assumes "\<forall>q. strip_total (api1 q) = strip_total (api2 q)"
    and "\<forall>q b d. api1 q = Response 200 b (Some (JObj d)) \<longrightarrow> \<not> infinite_total d"
    and "\<forall>q b d. api2 q = Response 200 b (Some (JObj d)) \<longrightarrow> \<not> infinite_total d"
  shows "returned_incidents (get_incidents_for_team ud api1 team_id since until) =
           returned_incidents (get_incidents_for_team ud api2 team_id since until)
       \<and> map_option (map_sum id requests) (get_incidents_for_team ud api1 team_id since until) =
           map_option (map_sum id requests) (get_incidents_for_team ud api2 team_id since until)"
proof (cases "validate_team_id team_id")
  case (Inl e)
  then show ?thesis
    by (simp add: get_incidents_for_team_def)
next
  case (Inr i)
  have "rel_option (rel_sum (=) same_but_total)
      (fetch_loop ud api1 team_id since until fetch_init)
      (fetch_loop ud api2 team_id since until fetch_init)"
    using assms by (rule fetch_loop_independent_of_total)
  then have "map_option (map_sum id incidents) (fetch_loop ud api1 team_id since until fetch_init) =
        map_option (map_sum id incidents) (fetch_loop ud api2 team_id since until fetch_init)
      \<and> map_option (map_sum id requests) (fetch_loop ud api1 team_id since until fetch_init) =
        map_option (map_sum id requests) (fetch_loop ud api2 team_id since until fetch_init)"
    by (cases "fetch_loop ud api1 team_id since until fetch_init";
        cases "fetch_loop ud api2 team_id since until fetch_init")
       (auto simp: same_but_total_def elim!: rel_sum.cases)
  with Inr show ?thesis
    by (simp add: get_incidents_for_team_def returned_incidents_def)
qed

text \<open>
  Claim C7 at the input where the code departs from it. Two services answer the first
  request with a last page of the same two incidents; the first page reports no total,
  the second the total \<open>-1e999\<close>, and the responses are otherwise identical. The claim
  has both runs return the same incidents. The first run returns the two incidents; the
  second ends with the \<open>OverflowError\<close> that \<open>int\<close> raises on an infinite float and
  that \<open>except (ValueError, TypeError)\<close> does not catch, and returns nothing.
\<close>

theorem get_incidents_for_team_total_decides:
  "strip_total (incidents_api_without_total (page_query example_team_id example_since example_until 0)) =
     strip_total (incidents_api_overflowing_total (page_query example_team_id example_since example_until 0))
   \<and> returned_incidents
     (get_incidents_for_team example_unicode incidents_api_without_total example_team_id
        example_since example_until) = Some (Inr two_incidents)
   \<and> returned_incidents
     (get_incidents_for_team example_unicode incidents_api_overflowing_total example_team_id
        example_since example_until) = Some (Inl OverflowError)"
proof (intro conjI)
  let ?none = "[(ascii ''incidents'', JList two_incidents), (ascii ''more'', JBool False)]"
  let ?inf = "[(ascii ''incidents'', JList two_incidents), (ascii ''more'', JBool False),
      (ascii ''total'', JFloat NegInf)]"
  show "strip_total (incidents_api_without_total (page_query example_team_id example_since example_until 0)) =
     strip_total (incidents_api_overflowing_total (page_query example_team_id example_since example_until 0))"
    by (simp add: strip_total_def strip_total_json_def incidents_api_without_total_def
        incidents_api_overflowing_total_def)
  have "returned_incidents (get_incidents_for_team example_unicode incidents_api_without_total
      example_team_id example_since example_until) =
      Some (if infinite_total ?none then Inl OverflowError else Inr two_incidents)"
    by (rule get_incidents_for_team_one_page [OF example_team_id_valid])
       (simp_all add: incidents_api_without_total_def dict_get_def)
  then show "returned_incidents (get_incidents_for_team example_unicode incidents_api_without_total
      example_team_id example_since example_until) = Some (Inr two_incidents)"
    by (simp add: infinite_total_def dict_get_def)
  have "returned_incidents (get_incidents_for_team example_unicode incidents_api_overflowing_total
      example_team_id example_since example_until) =
      Some (if infinite_total ?inf then Inl OverflowError else Inr two_incidents)"
    by (rule get_incidents_for_team_one_page [OF example_team_id_valid])
       (simp_all add: incidents_api_overflowing_total_def dict_get_def)
  then show "returned_incidents (get_incidents_for_team example_unicode incidents_api_overflowing_total
      example_team_id example_since example_until) = Some (Inl OverflowError)"
    by (simp add: infinite_total_def dict_get_def)
qed

section \<open>Verification of the exporter\<close>

lemma scan_log_entries_nonempty: "scan_log_entries ud es = Inr (Some s) \<Longrightarrow> s \<noteq> []"
proof (induction es)
  case Nil
  then show ?case by simp
next
  case (Cons e es)
  then show ?case
    by (auto simp: py_str_nonempty Let_def split: sum.splits if_splits)
qed

lemma enricher_nonempty:
  "get_incident_resolve_metadata ud log_api i = Inr (Some s) \<Longrightarrow> s \<noteq> []"
  by (auto simp: get_incident_resolve_metadata_def scan_log_entries_nonempty
      split: http_result.splits if_splits option.splits sum.splits)

lemma service_name_of_eq:
  "as_dict (py_or (dict_get inc (ascii ''service'') JNull) (JObj [])) = Inr service \<Longrightarrow>
   service_name_of inc =
     py_or (py_or (dict_get service (ascii ''summary'') JNull) (dict_get service (ascii ''name'') JNull))
       (JStr (ascii ''N/A''))"
  by (drule as_dict_or_empty_cases) (auto simp: service_name_of_def py_or_def dict_get_def)

lemma actor_summary_or_unknown_eq:
  "actor_summary_or_unknown inc = Inr rb \<Longrightarrow>
   rb = (if truthy (actor_summary inc) then actor_summary inc else JStr (ascii ''Unknown''))"
  unfolding actor_summary_or_unknown_def
  by (cases "dict_get inc (ascii ''last_status_change_by'') JNull")
     (auto simp: actor_summary_def py_or_def dict_get_def split: sum.splits if_splits)

lemma resolved_by_of_eq:
  assumes "is_resolved inc"
    and "get_incident_resolve_metadata ud log_api (incident_id_of ud inc) = Inr meta"
    and "resolved_by_of meta inc = Inr rb"
  shows "rb = expected_resolved_by ud log_api inc"
proof (cases meta)
  case None
  with assms show ?thesis
    by (simp add: resolved_by_of_def expected_resolved_by_def enricher_value_def
        actor_summary_or_unknown_eq)
next
  case (Some s)
  with assms(2) have "s \<noteq> []"
    by (simp add: enricher_nonempty)
  with Some assms show ?thesis
    by (simp add: resolved_by_of_def expected_resolved_by_def enricher_value_def)
qed

lemma write_incident_done:
  "write_incident ud n row v = (v', None) \<longleftrightarrow> row_encodable ud row \<and> v' = after_row n row v"
  by (auto simp: write_incident_def write_row_def after_row_def Let_def)

lemma write_incident_error:
  "write_incident ud n row v = (v', Some e) \<Longrightarrow> v' = v"
  by (auto simp: write_incident_def write_row_def Let_def split: if_splits)

lemma export_incident_done:
  assumes "export_incident ud log_api n i v = (v', None)"
  shows "\<exists>inc. i = JObj inc \<and> v' = after_incident ud log_api n inc v
           \<and> row_encodable ud (expected_row ud log_api inc)"
proof -
  from assms obtain inc where i: "i = JObj inc"
    by (cases i) (simp_all add: export_incident_def)
  from assms i obtain service where
    s: "as_dict (py_or (dict_get inc (ascii ''service'') JNull) (JObj [])) = Inr service"
    by (auto simp: export_incident_def split: sum.splits)
  note sn = service_name_of_eq [OF s, symmetric]
  show ?thesis
  proof (cases "is_resolved inc")
    case False
    with assms i s sn show ?thesis
      by (simp add: export_incident_def after_incident_def expected_row_def
          expected_resolved_by_def is_resolved_def write_incident_done)
  next
    case True
    with assms i s obtain meta rb where
      m: "get_incident_resolve_metadata ud log_api (incident_id_of ud inc) = Inr meta"
      and r: "resolved_by_of meta inc = Inr rb"
      by (auto simp: export_incident_def is_resolved_def incident_id_of_def Let_def
          split: sum.splits)
    from resolved_by_of_eq [OF True m r] assms i s sn True m r show ?thesis
      by (simp add: export_incident_def after_incident_def expected_row_def
          is_resolved_def incident_id_of_def Let_def write_incident_done)
  qed
qed

lemma export_incident_ok:
  assumes "incident_record ud log_api inc"
  shows "export_incident ud log_api n (JObj inc) v = (after_incident ud log_api n inc v, None)"
proof -
  from assms obtain service where
    s: "as_dict (py_or (dict_get inc (ascii ''service'') JNull) (JObj [])) = Inr service"
    using as_dict_object_or_falsy by (auto simp: incident_record_def)
  from assms obtain actor where
    a: "as_dict (py_or (dict_get inc (ascii ''last_status_change_by'') JNull) (JObj [])) = Inr actor"
    using as_dict_object_or_falsy by (auto simp: incident_record_def)
  from assms have enc: "row_encodable ud (expected_row ud log_api inc)"
    by (simp add: incident_record_def)
  note sn = service_name_of_eq [OF s, symmetric]
  show ?thesis
  proof (cases "is_resolved inc")
    case False
    with s sn enc show ?thesis
      by (simp add: export_incident_def is_resolved_def after_incident_def expected_row_def
          expected_resolved_by_def write_incident_done)
  next
    case True
    with assms obtain meta where
      m: "get_incident_resolve_metadata ud log_api (incident_id_of ud inc) = Inr meta"
      by (cases "get_incident_resolve_metadata ud log_api (incident_id_of ud inc)")
         (simp_all add: incident_record_def)
    from a have "\<exists>rb. actor_summary_or_unknown inc = Inr rb"
      by (simp add: actor_summary_or_unknown_def)
    then have "\<exists>rb. resolved_by_of meta inc = Inr rb"
      by (cases meta) (simp_all add: resolved_by_of_def)
    then obtain rb where r: "resolved_by_of meta inc = Inr rb" ..
    from resolved_by_of_eq [OF True m r] s sn enc True m r show ?thesis
      by (simp add: export_incident_def after_incident_def expected_row_def
          is_resolved_def incident_id_of_def Let_def write_incident_done)
  qed
qed

lemma after_incident_fields:
  "rows (after_incident ud log_api n inc v) = rows v @ [expected_row ud log_api inc]"
  "enriched (after_incident ud log_api n inc v) =
     enriched v @ (if is_resolved inc then [incident_id_of ud inc] else [])"
  by (simp_all add: after_incident_def after_row_def)

lemma export_incident_error_rows:
  "export_incident ud log_api n i v = (v', Some e) \<Longrightarrow> rows v' = rows v"
  by (auto simp: export_incident_def Let_def dest!: write_incident_error
      split: sum.splits if_splits)

lemma export_loop_rows:
  "export_loop ud log_api n is v = (v', err) \<Longrightarrow>
   \<exists>incs. prefix (map JObj incs) is
      \<and> rows v' = rows v @ map (expected_row ud log_api) incs
      \<and> (err = None \<longrightarrow> map JObj incs = is
            \<and> enriched v' = enriched v @ map (incident_id_of ud) (filter is_resolved incs))"
proof (induction "is" arbitrary: v)
  case Nil
  then show ?case by simp
next
  case (Cons i "is")
  obtain v1 e1 where step: "export_incident ud log_api n i v = (v1, e1)"
    by (cases "export_incident ud log_api n i v")
  show ?case
  proof (cases e1)
    case (Some e)
    with Cons.prems step have "v' = v1" "err = Some e"
      by simp_all
    moreover from step Some have "rows v1 = rows v"
      by (simp add: export_incident_error_rows)
    ultimately have "prefix (map JObj []) (i # is)
        \<and> rows v' = rows v @ map (expected_row ud log_api) []
        \<and> (err = None \<longrightarrow> map JObj [] = i # is
              \<and> enriched v' = enriched v @ map (incident_id_of ud) (filter is_resolved []))"
      by simp
    then show ?thesis by (rule exI)
  next
    case None
    with step obtain inc where i: "i = JObj inc" and v1: "v1 = after_incident ud log_api n inc v"
      using export_incident_done by blast
    from Cons.prems step None have "export_loop ud log_api n is v1 = (v', err)"
      by simp
    from Cons.IH [OF this] obtain incs where incs: "prefix (map JObj incs) is"
      "rows v' = rows v1 @ map (expected_row ud log_api) incs"
      "err = None \<longrightarrow> map JObj incs = is
          \<and> enriched v' = enriched v1 @ map (incident_id_of ud) (filter is_resolved incs)"
      by blast
    have "prefix (map JObj (inc # incs)) (i # is)
        \<and> rows v' = rows v @ map (expected_row ud log_api) (inc # incs)
        \<and> (err = None \<longrightarrow> map JObj (inc # incs) = i # is
              \<and> enriched v' = enriched v @ map (incident_id_of ud) (filter is_resolved (inc # incs)))"
      using incs i by (simp add: v1 after_incident_fields)
    then show ?thesis by (rule exI)
  qed
qed

lemma export_loop_ok:
  "list_all (incident_record ud log_api) incs \<Longrightarrow>
   snd (export_loop ud log_api n (map JObj incs) v) = None"
  by (induction incs arbitrary: v) (simp_all add: export_incident_ok)

lemma expected_row_length: "length (expected_row ud log_api inc) = 8"
  by (simp add: expected_row_def incident_row_def)

lemma expected_row_last: "expected_row ud log_api inc ! 7 = expected_resolved_by ud log_api inc"
  by (simp add: expected_row_def incident_row_def)

lemma headers_names:
  "headers = map (\<lambda>name. JStr (ascii name))
     [''HTML URL'', ''Incident Number'', ''Title'', ''Status'', ''Service Name'', ''Created'',
      ''Urgency'', ''Resolved By'']"
  by (simp add: headers_def)

lemma write_incidents_to_csv_records:
  assumes "can_open (output_path ud team_name filename)"
    and "list_all (incident_record ud log_api) incs"
  shows "\<exists>v data.
      write_incidents_to_csv ud can_open log_api fs (map JObj incs) team_name filename =
        (fs(output_path ud team_name filename \<mapsto> headers # data), v, None)
      \<and> data = map (expected_row ud log_api) incs
      \<and> length (headers # data) = length incs + 1
      \<and> list_all (\<lambda>row. length row = 8) (headers # data)"
proof -
  obtain v err where run:
    "export_loop ud log_api (length (map JObj incs)) (map JObj incs) export_init = (v, err)"
    by (cases "export_loop ud log_api (length (map JObj incs)) (map JObj incs) export_init")
  with export_loop_ok [OF assms(2), of "length (map JObj incs)" export_init] have err: "err = None"
    by simp
  from export_loop_rows [OF run] err obtain incs' where
    eq: "map JObj incs' = map JObj incs"
    and r: "rows v = rows export_init @ map (expected_row ud log_api) incs'"
    by blast
  have "inj JObj"
    by (rule injI) simp
  with eq have "incs' = incs"
    by (simp add: inj_map_eq_map)
  with r have "rows v = headers # map (expected_row ud log_api) incs"
    by (simp add: export_init_def)
  with run err assms(1) have
    "write_incidents_to_csv ud can_open log_api fs (map JObj incs) team_name filename =
      (fs(output_path ud team_name filename \<mapsto> headers # map (expected_row ud log_api) incs), v, None)"
    by (simp add: write_incidents_to_csv_def)
  then show ?thesis
    by (auto simp: headers_def list_all_iff expected_row_length)
qed

lemma write_incidents_to_csv_written:
  assumes "can_open (output_path ud team_name filename)"
    and "write_incidents_to_csv ud can_open log_api fs is team_name filename = (fs', v, err)"
  shows "\<exists>incs. prefix (map JObj incs) is
      \<and> fs' (output_path ud team_name filename) = Some (headers # map (expected_row ud log_api) incs)
      \<and> (err = None \<longrightarrow> map JObj incs = is
            \<and> enriched v = map (incident_id_of ud) (filter is_resolved incs))"
proof -
  obtain w e where run: "export_loop ud log_api (length is) is export_init = (w, e)"
    by (cases "export_loop ud log_api (length is) is export_init")
  with assms have res: "fs' = fs(output_path ud team_name filename \<mapsto> rows w)" "v = w" "err = e"
    by (auto simp: write_incidents_to_csv_def)
  from export_loop_rows [OF run] obtain incs where incs: "prefix (map JObj incs) is"
    "rows w = rows export_init @ map (expected_row ud log_api) incs"
    "e = None \<longrightarrow> map JObj incs = is
        \<and> enriched w = enriched export_init @ map (incident_id_of ud) (filter is_resolved incs)"
    by blast
  have "prefix (map JObj incs) is
      \<and> fs' (output_path ud team_name filename) = Some (headers # map (expected_row ud log_api) incs)
      \<and> (err = None \<longrightarrow> map JObj incs = is
            \<and> enriched v = map (incident_id_of ud) (filter is_resolved incs))"
    using incs res by (simp add: export_init_def)
  then show ?thesis by (rule exI)
qed

lemmas export_unfold =
  write_incidents_to_csv_def output_path_def default_filename_def sanitize_unfold
  export_init_def export_incident_def write_incident_def write_row_def row_encodable_def
  incident_row_def dict_get_def py_or_def get_incident_resolve_metadata_def
  resolved_by_of_def actor_summary_or_unknown_def can_open_all_def no_files_def

lemma example_output_path: "output_path ud (ascii ''Ops'') None = example_path"
  by (simp add: output_path_def default_filename_def sanitize_unfold example_path_def)

lemma example_incidents_records:
  "list_all (incident_record example_unicode log_api_no_agent) example_incidents"
  by (simp add: example_incidents_def incident_record_def is_resolved_def dict_get_def
      incident_id_of_def get_incident_resolve_metadata_def log_api_no_agent_def py_or_def
      row_encodable_def expected_row_def incident_row_def service_name_of_def
      expected_resolved_by_def enricher_value_def actor_summary_def)

text \<open>
  Claim C3, as the code has it. Let the destination be writable. For every list of
  incidents that are records of the data model (objects whose \<open>service\<close> and
  \<open>last_status_change_by\<close> are objects or missing), whose enrichment raises nothing
  and whose row has a UTF-8 encoding, \<open>write_incidents_to_csv\<close> ends without an
  exception and the file holds the header row first, followed by one row per incident
  in the order of the input, so that its row count is the number of incidents plus one.
  For every input whatever, the file starts with the header row, every row has eight
  fields, and the data rows are those of the incidents handled before the call ended,
  in the order of the input: at most one per incident, and exactly one per incident
  when the call ends without an exception. The header is the eight names in their
  order.
\<close>

theorem write_incidents_to_csv_rows:
  assumes "can_open (output_path ud team_name filename)"
  shows "(\<forall>incs. list_all (incident_record ud log_api) incs \<longrightarrow>
            (\<exists>v data.
               write_incidents_to_csv ud can_open log_api fs (map JObj incs) team_name filename =
                 (fs(output_path ud team_name filename \<mapsto> headers # data), v, None)
               \<and> data = map (expected_row ud log_api) incs
               \<and> length (headers # data) = length incs + 1))
       \<and> (\<forall>is fs' v err.
            write_incidents_to_csv ud can_open log_api fs is team_name filename = (fs', v, err) \<longrightarrow>
            (\<exists>incs data.
               prefix (map JObj incs) is
               \<and> fs' (output_path ud team_name filename) = Some (headers # data)
               \<and> data = map (expected_row ud log_api) incs
               \<and> list_all (\<lambda>row. length row = 8) (headers # data)
               \<and> length data \<le> length is
               \<and> (err = None \<longrightarrow> length (headers # data) = length is + 1)))
       \<and> headers = map (\<lambda>name. JStr (ascii name))
            [''HTML URL'', ''Incident Number'', ''Title'', ''Status'', ''Service Name'', ''Created'',
             ''Urgency'', ''Resolved By'']"
proof (intro conjI allI impI)
  fix incs
  assume "list_all (incident_record ud log_api) incs"
  with assms show "\<exists>v data.
      write_incidents_to_csv ud can_open log_api fs (map JObj incs) team_name filename =
        (fs(output_path ud team_name filename \<mapsto> headers # data), v, None)
      \<and> data = map (expected_row ud log_api) incs
      \<and> length (headers # data) = length incs + 1"
    using write_incidents_to_csv_records [of can_open ud team_name filename log_api incs fs]
    by auto
next
  fix "is" fs' v err
  assume "write_incidents_to_csv ud can_open log_api fs is team_name filename = (fs', v, err)"
  from write_incidents_to_csv_written [OF assms this] obtain incs where
    incs: "prefix (map JObj incs) is"
    "fs' (output_path ud team_name filename) = Some (headers # map (expected_row ud log_api) incs)"
    "err = None \<longrightarrow> map JObj incs = is"
    by blast
  from incs(1) have "length (map JObj incs) \<le> length is"
    by (rule prefix_length_le)
  moreover from incs(3) have "err = None \<longrightarrow> length (map JObj incs) = length is"
    by auto
  ultimately have "prefix (map JObj incs) is
      \<and> fs' (output_path ud team_name filename) = Some (headers # map (expected_row ud log_api) incs)
      \<and> map (expected_row ud log_api) incs = map (expected_row ud log_api) incs
      \<and> list_all (\<lambda>row. length row = 8) (headers # map (expected_row ud log_api) incs)
      \<and> length (map (expected_row ud log_api) incs) \<le> length is
      \<and> (err = None \<longrightarrow> length (headers # map (expected_row ud log_api) incs) = length is + 1)"
    using incs(1,2) by (simp add: headers_def list_all_iff expected_row_length)
  then show "\<exists>incs data.
      prefix (map JObj incs) is
      \<and> fs' (output_path ud team_name filename) = Some (headers # data)
      \<and> data = map (expected_row ud log_api) incs
      \<and> list_all (\<lambda>row. length row = 8) (headers # data)
      \<and> length data \<le> length is
      \<and> (err = None \<longrightarrow> length (headers # data) = length is + 1)"
    by blast
qed (rule headers_names)

theorem write_incidents_to_csv_rows_witness:
  "map_option length
     (fst (write_incidents_to_csv example_unicode can_open_all log_api_no_agent no_files
             (map JObj example_incidents) (ascii ''Ops'') None) example_path) = Some 3"
proof -
  have o: "can_open_all (output_path example_unicode (ascii ''Ops'') None)"
    by (simp add: can_open_all_def)
  from write_incidents_to_csv_rows [of can_open_all example_unicode "ascii ''Ops''" None
      log_api_no_agent no_files, OF o, THEN conjunct1, rule_format, OF example_incidents_records]
  show ?thesis
    by (auto simp: example_output_path example_incidents_def)
qed

theorem write_incidents_to_csv_header_only_counterexample:
  "fst (write_incidents_to_csv example_unicode can_open_all log_api_not_json no_files
          (map JObj example_incidents) (ascii ''Ops'') None) example_path = Some [headers]
   \<and> snd (snd (write_incidents_to_csv example_unicode can_open_all log_api_not_json no_files
          (map JObj example_incidents) (ascii ''Ops'') None)) = Some JSONDecodeError
   \<and> length example_incidents = 2
   \<and> fst (write_incidents_to_csv example_unicode can_open_all log_api_down no_files
          [JObj incident_surrogate_title] (ascii ''Ops'') None) example_path = Some [headers]
   \<and> snd (snd (write_incidents_to_csv example_unicode can_open_all log_api_down no_files
          [JObj incident_surrogate_title] (ascii ''Ops'') None)) = Some UnicodeEncodeError"
  by (simp add: export_unfold example_path_def example_incidents_def log_api_not_json_def
      incident_surrogate_title_def csv_text_def utf8_encodable_def is_surrogate_def)

text \<open>
  Claim C4, as the code has it. In every row that \<open>write_incidents_to_csv\<close> writes,
  also when a later incident ends the call with an exception, the last field is: for an
  incident whose status is \<open>resolved\<close>, the enricher's \<open>resolved_by\<close> when it returns
  one, else the summary of the incident's \<open>last_status_change_by\<close> when that summary is
  present and not empty (truthy), else the token \<open>Unknown\<close>; for any other status, the
  empty string. When the call ends normally the enricher has been called for the
  resolved incidents and for no other. An empty summary therefore yields \<open>Unknown\<close>,
  as the concrete run after the theorem shows.
\<close>

theorem write_incidents_to_csv_resolved_by:
  assumes "can_open (output_path ud team_name filename)"
    and "write_incidents_to_csv ud can_open log_api fs is team_name filename = (fs', v, err)"
  shows "\<exists>incs data.
      prefix (map JObj incs) is
      \<and> fs' (output_path ud team_name filename) = Some (headers # data)
      \<and> length data = length incs
      \<and> (\<forall>k<length incs.
            data ! k ! 7 =
              (if dict_get (incs ! k) (ascii ''status'') JNull = JStr (ascii ''resolved'')
               then (case enricher_value ud log_api (incs ! k) of
                       Some s \<Rightarrow> JStr s
                     | None \<Rightarrow>
                         if truthy (actor_summary (incs ! k)) then actor_summary (incs ! k)
                         else JStr (ascii ''Unknown''))
               else JStr []))
      \<and> (err = None \<longrightarrow>
            map JObj incs = is
            \<and> enriched v =
                map (incident_id_of ud)
                  (filter (\<lambda>inc. dict_get inc (ascii ''status'') JNull = JStr (ascii ''resolved'')) incs))"
proof -
  obtain w e where run: "export_loop ud log_api (length is) is export_init = (w, e)"
    by (cases "export_loop ud log_api (length is) is export_init")
  with assms have res: "fs' = fs(output_path ud team_name filename \<mapsto> rows w)" "v = w" "err = e"
    by (auto simp: write_incidents_to_csv_def)
  from export_loop_rows [OF run] obtain incs where incs: "prefix (map JObj incs) is"
    "rows w = rows export_init @ map (expected_row ud log_api) incs"
    "e = None \<longrightarrow> map JObj incs = is
        \<and> enriched w = enriched export_init @ map (incident_id_of ud) (filter is_resolved incs)"
    by blast
  let ?data = "map (expected_row ud log_api) incs"
  have "fs' (output_path ud team_name filename) = Some (headers # ?data)"
    using res(1) incs(2) by (simp add: export_init_def)
  moreover have "length ?data = length incs"
    by simp
  moreover have "\<forall>k<length incs. ?data ! k ! 7 =
      (if dict_get (incs ! k) (ascii ''status'') JNull = JStr (ascii ''resolved'')
       then (case enricher_value ud log_api (incs ! k) of
               Some s \<Rightarrow> JStr s
             | None \<Rightarrow>
                 if truthy (actor_summary (incs ! k)) then actor_summary (incs ! k)
                 else JStr (ascii ''Unknown''))
       else JStr [])"
    by (simp add: expected_row_last expected_resolved_by_def is_resolved_def)
  moreover have "err = None \<longrightarrow> map JObj incs = is
      \<and> enriched v = map (incident_id_of ud)
          (filter (\<lambda>inc. dict_get inc (ascii ''status'') JNull = JStr (ascii ''resolved'')) incs)"
    using incs(3) res(2,3) by (simp add: export_init_def is_resolved_def [abs_def])
  ultimately show ?thesis
    using incs(1) by blast
qed

theorem write_incidents_to_csv_resolved_by_witness:
  "map (\<lambda>row. row ! 7)
     (the (fst (write_incidents_to_csv example_unicode can_open_all log_api_no_agent no_files
                  (map JObj example_incidents) (ascii ''Ops'') None) example_path)) =
   [JStr (ascii ''Resolved By''), JStr (ascii ''Sam''), JStr []]"
proof -
  let ?run = "write_incidents_to_csv example_unicode can_open_all log_api_no_agent no_files
      (map JObj example_incidents) (ascii ''Ops'') None"
  have o: "can_open_all (output_path example_unicode (ascii ''Ops'') None)"
    by (simp add: can_open_all_def)
  have run: "?run = (fst ?run, fst (snd ?run), snd (snd ?run))"
    by simp
  have fin: "snd (snd ?run) = None"
    using write_incidents_to_csv_records [of can_open_all example_unicode "ascii ''Ops''" None
        log_api_no_agent example_incidents no_files, OF o example_incidents_records]
    by auto
  have first: "(if dict_get (example_incidents ! 0) (ascii ''status'') JNull = JStr (ascii ''resolved'')
       then (case enricher_value example_unicode log_api_no_agent (example_incidents ! 0) of
               Some s \<Rightarrow> JStr s
             | None \<Rightarrow>
                 if truthy (actor_summary (example_incidents ! 0))
                 then actor_summary (example_incidents ! 0) else JStr (ascii ''Unknown''))
       else JStr []) = JStr (ascii ''Sam'')"
    by (simp add: example_incidents_def dict_get_def enricher_value_def incident_id_of_def
        get_incident_resolve_metadata_def log_api_no_agent_def py_or_def actor_summary_def)
  have second: "(if dict_get (example_incidents ! 1) (ascii ''status'') JNull = JStr (ascii ''resolved'')
       then (case enricher_value example_unicode log_api_no_agent (example_incidents ! 1) of
               Some s \<Rightarrow> JStr s
             | None \<Rightarrow>
                 if truthy (actor_summary (example_incidents ! 1))
                 then actor_summary (example_incidents ! 1) else JStr (ascii ''Unknown''))
       else JStr []) = JStr []"
    by (simp add: example_incidents_def dict_get_def)
  from write_incidents_to_csv_resolved_by [of can_open_all example_unicode "ascii ''Ops''" None
      log_api_no_agent no_files "map JObj example_incidents" "fst ?run" "fst (snd ?run)"
      "snd (snd ?run)", OF o run]
  obtain incs data where incs: "map JObj incs = map JObj example_incidents"
    and written: "fst ?run example_path = Some (headers # data)"
    and len: "length data = length incs"
    and field: "\<forall>k<length incs. data ! k ! 7 =
        (if dict_get (incs ! k) (ascii ''status'') JNull = JStr (ascii ''resolved'')
         then (case enricher_value example_unicode log_api_no_agent (incs ! k) of
                 Some s \<Rightarrow> JStr s
               | None \<Rightarrow>
                   if truthy (actor_summary (incs ! k)) then actor_summary (incs ! k)
                   else JStr (ascii ''Unknown''))
         else JStr [])"
    unfolding example_output_path using fin by auto
  have "inj JObj"
    by (rule injI) simp
  with incs have eq: "incs = example_incidents"
    by (simp add: inj_map_eq_map)
  have two: "length example_incidents = 2"
    by (simp add: example_incidents_def)
  with len eq obtain a b where data: "data = [a, b]"
    by (cases data; cases "tl data") auto
  from field [rule_format, of 0] field [rule_format, of 1] first second
  have "a ! 7 = JStr (ascii ''Sam'')" "b ! 7 = JStr []"
    unfolding eq data using two by simp_all
  with written data show ?thesis
    by (simp add: headers_def)
qed

theorem write_incidents_to_csv_blank_summary_counterexample:
  "fst (write_incidents_to_csv example_unicode can_open_all log_api_down no_files
          [JObj incident_blank_actor] (ascii ''Ops'') None) example_path =
     Some [headers,
           [JStr [], JStr (ascii ''N/A''), JStr (ascii ''N/A''), JStr (ascii ''resolved''),
            JStr (ascii ''N/A''), JStr (ascii ''N/A''), JStr (ascii ''N/A''), JStr (ascii ''Unknown'')]]
   \<and> get_incident_resolve_metadata example_unicode log_api_down (ascii ''Q1'') = Inr None
   \<and> dict_get incident_blank_actor (ascii ''last_status_change_by'') JNull =
       JObj [(ascii ''summary'', JStr [])]
   \<and> actor_summary incident_blank_actor = JStr []"
proof (intro conjI)
  have rec: "list_all (incident_record example_unicode log_api_down) [incident_blank_actor]"
    by (simp add: incident_blank_actor_def incident_record_def is_resolved_def dict_get_def
        incident_id_of_def get_incident_resolve_metadata_def log_api_down_def py_or_def
        row_encodable_def expected_row_def incident_row_def service_name_of_def
        expected_resolved_by_def enricher_value_def actor_summary_def)
  have o: "can_open_all (output_path example_unicode (ascii ''Ops'') None)"
    by (simp add: can_open_all_def)
  have row: "expected_row example_unicode log_api_down incident_blank_actor =
      [JStr [], JStr (ascii ''N/A''), JStr (ascii ''N/A''), JStr (ascii ''resolved''),
       JStr (ascii ''N/A''), JStr (ascii ''N/A''), JStr (ascii ''N/A''), JStr (ascii ''Unknown'')]"
    by (simp add: incident_blank_actor_def is_resolved_def dict_get_def
        incident_id_of_def get_incident_resolve_metadata_def log_api_down_def py_or_def
        expected_row_def incident_row_def service_name_of_def
        expected_resolved_by_def enricher_value_def actor_summary_def)
  from write_incidents_to_csv_records [of can_open_all example_unicode "ascii ''Ops''" None
      log_api_down "[incident_blank_actor]" no_files, OF o rec]
  show "fst (write_incidents_to_csv example_unicode can_open_all log_api_down no_files
          [JObj incident_blank_actor] (ascii ''Ops'') None) example_path =
     Some [headers,
           [JStr [], JStr (ascii ''N/A''), JStr (ascii ''N/A''), JStr (ascii ''resolved''),
            JStr (ascii ''N/A''), JStr (ascii ''N/A''), JStr (ascii ''N/A''), JStr (ascii ''Unknown'')]]"
    by (auto simp: example_output_path row)
  show "get_incident_resolve_metadata example_unicode log_api_down (ascii ''Q1'') = Inr None"
    by (simp add: get_incident_resolve_metadata_def log_api_down_def)
  show "dict_get incident_blank_actor (ascii ''last_status_change_by'') JNull =
       JObj [(ascii ''summary'', JStr [])]"
    by (simp add: incident_blank_actor_def dict_get_def)
  show "actor_summary incident_blank_actor = JStr []"
    by (simp add: incident_blank_actor_def actor_summary_def dict_get_def)
qed

section \<open>Verification of the time window\<close>

lemma month_range: "(n::nat) < 365 \<Longrightarrow> (n + 50) div 32 \<in> {1..12}"
  by simp arith

lemma month_day_case:
  assumes "k \<in> {1..12}" "32 * k \<le> n + 50" "n + 50 < 32 * k + 32" "n < 365"
  shows "case (let month = k;
          preceding = days_before_month_table ! month + (if 2 < month \<and> leap then 1 else 0)
      in if n < preceding
         then (month - 1,
               n - (preceding - (days_in_month_table ! (month - 1)
                                 + (if month - 1 = 2 \<and> leap then 1 else 0))) + 1)
         else (month, n - preceding + 1)) of (m, d) \<Rightarrow>
         1 \<le> m \<and> m \<le> 12 \<and> 1 \<le> d
         \<and> d \<le> (if m = 2 \<and> leap then 29 else days_in_month_table ! m)
         \<and> days_before_month_table ! m + (if 2 < m \<and> leap then 1 else 0) + d = n + 1"
proof -
  from assms(1) have "k = 1 \<or> k = 2 \<or> k = 3 \<or> k = 4 \<or> k = 5 \<or> k = 6 \<or> k = 7 \<or> k = 8
      \<or> k = 9 \<or> k = 10 \<or> k = 11 \<or> k = 12"
    by (simp add: atLeastAtMost_iff) arith
  then show ?thesis
    using assms(2-)
    by (elim disjE)
       (auto simp: days_before_month_table_def days_in_month_table_def Let_def)
qed

lemma month_day_ok:
  assumes "n < 365"
  shows "case month_day leap n of (m, d) \<Rightarrow>
         1 \<le> m \<and> m \<le> 12 \<and> 1 \<le> d
         \<and> d \<le> (if m = 2 \<and> leap then 29 else days_in_month_table ! m)
         \<and> days_before_month_table ! m + (if 2 < m \<and> leap then 1 else 0) + d = n + 1"
  unfolding month_day_def
  by (rule month_day_case [OF month_range [OF assms] _ _ assms]) simp_all

lemma year_divs:
  fixes a b c e :: nat
  assumes "b \<le> 3" "c \<le> 24" "e \<le> 3"
  shows "(400 * a + 100 * b + 4 * c + e) div 4 = 100 * a + 25 * b + c"
    and "(400 * a + 100 * b + 4 * c + e) div 100 = 4 * a + b"
    and "(400 * a + 100 * b + 4 * c + e) div 400 = a"
  using assms by arith+

lemma days_before_year_split:
  assumes "b \<le> 3" "c \<le> 24" "e \<le> 3"
  shows "days_before_year (400 * a + 100 * b + 4 * c + e + 1) =
           146097 * a + 36524 * b + 1461 * c + 365 * e"
  by (simp add: days_before_year_def year_divs [OF assms])

lemma is_leap_split:
  assumes "b \<le> 3" "c \<le> 24" "e \<le> 3"
  shows "is_leap (400 * a + 100 * b + 4 * c + e + 1) = (e = 3 \<and> (c \<noteq> 24 \<or> b = 3))"
proof -
  have "400 * a + 100 * b + 4 * c + e + 1 = (e + 1) + 4 * (100 * a + 25 * b + c)"
    by simp
  then have "(400 * a + 100 * b + 4 * c + e + 1) mod 4 = (e + 1) mod 4"
    by (simp only: mod_mult_self2)
  moreover have "400 * a + 100 * b + 4 * c + e + 1 = (4 * c + e + 1) + 100 * (4 * a + b)"
    by simp
  then have "(400 * a + 100 * b + 4 * c + e + 1) mod 100 = (4 * c + e + 1) mod 100"
    by (simp only: mod_mult_self2)
  moreover have "400 * a + 100 * b + 4 * c + e + 1 = (100 * b + 4 * c + e + 1) + 400 * a"
    by simp
  then have "(400 * a + 100 * b + 4 * c + e + 1) mod 400 = (100 * b + 4 * c + e + 1) mod 400"
    by (simp only: mod_mult_self2)
  moreover have "((e + 1) mod 4 = 0) = (e = 3)"
    using assms(3) by presburger
  moreover have "((4 * c + e + 1) mod 100 = 0) = (c = 24 \<and> e = 3)"
  proof (cases "4 * c + e + 1 = 100")
    case True
    with assms have "c = 24 \<and> e = 3" by linarith
    with True show ?thesis by simp
  next
    case False
    with assms have "4 * c + e + 1 < 100" by linarith
    moreover from False have "\<not> (c = 24 \<and> e = 3)" by auto
    ultimately show ?thesis by simp
  qed
  moreover have "((100 * b + 4 * c + e + 1) mod 400 = 0) = (b = 3 \<and> c = 24 \<and> e = 3)"
  proof (cases "100 * b + 4 * c + e + 1 = 400")
    case True
    with assms have "b = 3 \<and> c = 24 \<and> e = 3" by linarith
    with True show ?thesis by simp
  next
    case False
    with assms have "100 * b + 4 * c + e + 1 < 400" by linarith
    moreover from False have "\<not> (b = 3 \<and> c = 24 \<and> e = 3)" by auto
    ultimately show ?thesis by simp
  qed
  ultimately show ?thesis
    unfolding is_leap_def by (simp only:) blast
qed

lemma ord2ymd_roundtrip:
  assumes "1 \<le> n"
  shows "case ord2ymd n of (y, m, d) \<Rightarrow>
           ymd2ord y m d = n \<and> 1 \<le> y \<and> 1 \<le> m \<and> m \<le> 12 \<and> 1 \<le> d \<and> d \<le> days_in_month y m"
proof -
  define m0 where "m0 = n - 1"
  define a where "a = m0 div 146097"
  define r1 where "r1 = m0 mod 146097"
  define b where "b = r1 div 36524"
  define r2 where "r2 = r1 mod 36524"
  define c where "c = r2 div 1461"
  define r3 where "r3 = r2 mod 1461"
  define e where "e = r3 div 365"
  define r4 where "r4 = r3 mod 365"
  have n: "n = m0 + 1"
    using assms by (simp add: m0_def)
  have s1: "m0 = 146097 * a + r1" "r1 < 146097"
    by (simp_all add: a_def r1_def)
  have s2: "r1 = 36524 * b + r2" "r2 < 36524"
    by (simp_all add: b_def r2_def)
  have s3: "r2 = 1461 * c + r3" "r3 < 1461"
    by (simp_all add: c_def r3_def)
  have s4: "r3 = 365 * e + r4" "r4 < 365"
    by (simp_all add: e_def r4_def)
  have bounds: "b \<le> 4" "c \<le> 24" "e \<le> 4"
    using s1 s2 s3 s4 by linarith+
  have unfold: "ord2ymd n =
      (if e = 4 \<or> b = 4 then (a * 400 + 1 + b * 100 + c * 4 + e - 1, 12, 31)
       else (a * 400 + 1 + b * 100 + c * 4 + e,
             fst (month_day (e = 3 \<and> (c \<noteq> 24 \<or> b = 3)) r4),
             snd (month_day (e = 3 \<and> (c \<noteq> 24 \<or> b = 3)) r4)))"
    unfolding ord2ymd_def Let_def m0_def [symmetric] a_def [symmetric] r1_def [symmetric]
      b_def [symmetric] r2_def [symmetric] c_def [symmetric] r3_def [symmetric]
      e_def [symmetric] r4_def [symmetric]
    by (rule refl)
  show ?thesis
  proof (cases "b = 4")
    case True
    with s1 s2 s3 s4 have z: "r2 = 0" "c = 0" "e = 0" "r4 = 0" "r3 = 0"
      by linarith+
    have y: "a * 400 + 1 + b * 100 + c * 4 + e - 1 = 400 * a + 100 * 3 + 4 * 24 + 3 + 1"
      using True z by simp
    have "days_before_year (400 * a + 100 * 3 + 4 * 24 + 3 + 1) =
        146097 * a + 36524 * 3 + 1461 * 24 + 365 * 3"
      by (rule days_before_year_split) simp_all
    moreover have "is_leap (400 * a + 100 * 3 + 4 * 24 + 3 + 1)"
      using is_leap_split [of 3 24 3 a] by simp
    ultimately have "ymd2ord (400 * a + 100 * 3 + 4 * 24 + 3 + 1) 12 31 = n"
      "31 \<le> days_in_month (400 * a + 100 * 3 + 4 * 24 + 3 + 1) 12"
      using s1 s2 True z n
      by (simp_all add: ymd2ord_def days_before_month_def days_before_month_table_def
          days_in_month_def days_in_month_table_def)
    with True show ?thesis
      unfolding unfold y by simp
  next
    case b: False
    with bounds have b3: "b \<le> 3" by simp
    show ?thesis
    proof (cases "e = 4")
      case True
      with s3 s4 have z: "r4 = 0" "r3 = 1460"
        by linarith+
      with s2 s3 have c23: "c \<le> 23"
        by linarith
      have y: "a * 400 + 1 + b * 100 + c * 4 + e - 1 = 400 * a + 100 * b + 4 * c + 3 + 1"
        using True by simp
      have "days_before_year (400 * a + 100 * b + 4 * c + 3 + 1) =
          146097 * a + 36524 * b + 1461 * c + 365 * 3"
        using b3 c23 by (intro days_before_year_split) simp_all
      moreover have l: "is_leap (400 * a + 100 * b + 4 * c + 3 + 1)"
        using is_leap_split [of b c 3 a] b3 c23 by simp
      ultimately have "ymd2ord (400 * a + 100 * b + 4 * c + 3 + 1) 12 31 = n"
        "31 \<le> days_in_month (400 * a + 100 * b + 4 * c + 3 + 1) 12"
        using s1 s2 s3 z n
        by (simp_all add: ymd2ord_def days_before_month_def days_before_month_table_def
            days_in_month_def days_in_month_table_def)
      with True show ?thesis
        unfolding unfold y by simp
    next
      case e: False
      with bounds have e3: "e \<le> 3" by simp
      let ?L = "e = 3 \<and> (c \<noteq> 24 \<or> b = 3)"
      let ?y = "400 * a + 100 * b + 4 * c + e + 1"
      obtain m d where md: "month_day ?L r4 = (m, d)"
        by (cases "month_day ?L r4")
      from month_day_ok [OF s4(2), of ?L] md have mdp: "1 \<le> m" "m \<le> 12" "1 \<le> d"
        "d \<le> (if m = 2 \<and> ?L then 29 else days_in_month_table ! m)"
        "days_before_month_table ! m + (if 2 < m \<and> ?L then 1 else 0) + d = r4 + 1"
        by simp_all
      have y: "a * 400 + 1 + b * 100 + c * 4 + e = ?y"
        by simp
      have dby: "days_before_year ?y = 146097 * a + 36524 * b + 1461 * c + 365 * e"
        using b3 bounds(2) e3 by (rule days_before_year_split)
      have leap: "is_leap ?y = ?L"
        using b3 bounds(2) e3 by (rule is_leap_split)
      have "ymd2ord ?y m d = n"
        unfolding ymd2ord_def days_before_month_def leap dby
        using mdp(5) s1 s2 s3 s4 n by linarith
      moreover have "d \<le> days_in_month ?y m"
        unfolding days_in_month_def leap using mdp(4) .
      ultimately show ?thesis
        unfolding unfold y using b e md mdp(1-3) by simp
    qed
  qed
qed

lemma div_step: "((x::nat) + 1) div k = x div k + (if (x + 1) mod k = 0 then 1 else 0)"
  using div_Suc [of x k] by simp

lemma year_step_arith:
  fixes x q4 q100 q400 :: nat
  assumes "q100 \<le> q4" "A400 \<Longrightarrow> A100" "A100 \<Longrightarrow> A4"
  shows "(x + 1) * 365 + (q4 + (if A4 then 1 else 0)) + (q400 + (if A400 then 1 else 0))
           - (q100 + (if A100 then 1 else 0)) =
         x * 365 + q4 + q400 - q100 + 365 + (if A4 \<and> (\<not> A100 \<or> A400) then 1 else 0)"
  using assms by (cases A4; cases A100; cases A400) simp_all

lemma days_before_year_Suc:
  assumes "1 \<le> y"
  shows "days_before_year (y + 1) = days_before_year y + 365 + (if is_leap y then 1 else 0)"
proof -
  obtain x where y: "y = x + 1"
    using assms by (cases y) simp_all
  have le: "x div 100 \<le> x div 4"
    by (rule div_le_mono2) simp_all
  have imp: "(x + 1) mod 400 = 0 \<Longrightarrow> (x + 1) mod 100 = 0"
    "(x + 1) mod 100 = 0 \<Longrightarrow> (x + 1) mod 4 = 0"
    using mod_mod_cancel [of 100 400 "x + 1"] mod_mod_cancel [of 4 100 "x + 1"] by simp_all
  have l: "days_before_year (x + 1 + 1) =
      (x + 1) * 365 + (x div 4 + (if (x + 1) mod 4 = 0 then 1 else 0))
        + (x div 400 + (if (x + 1) mod 400 = 0 then 1 else 0))
        - (x div 100 + (if (x + 1) mod 100 = 0 then 1 else 0))"
    unfolding days_before_year_def Let_def add_diff_cancel_right'
    by (simp only: div_step [of x 4] div_step [of x 100] div_step [of x 400])
  have r: "days_before_year (x + 1) + 365 + (if is_leap (x + 1) then 1 else 0) =
      x * 365 + x div 4 + x div 400 - x div 100 + 365
        + (if (x + 1) mod 4 = 0 \<and> (\<not> (x + 1) mod 100 = 0 \<or> (x + 1) mod 400 = 0) then 1 else 0)"
    unfolding days_before_year_def Let_def add_diff_cancel_right' is_leap_def
    by (rule refl)
  show ?thesis
    unfolding y l r using le imp by (rule year_step_arith)
qed

lemma days_before_year_mono: "1 \<le> y \<Longrightarrow> y \<le> z \<Longrightarrow> days_before_year y \<le> days_before_year z"
proof (induction z)
  case 0
  then show ?case by simp
next
  case (Suc z)
  show ?case
  proof (cases "y = Suc z")
    case True
    then show ?thesis by simp
  next
    case False
    with Suc.prems have yz: "y \<le> z" "1 \<le> z" by simp_all
    from days_before_year_Suc [OF yz(2)] have "days_before_year z \<le> days_before_year (Suc z)"
      by simp
    with Suc.IH [OF Suc.prems(1) yz(1)] show ?thesis
      by simp
  qed
qed

lemma month_span:
  assumes "1 \<le> m" "m \<le> 12"
  shows "days_before_month y m + days_in_month y m \<le> 365 + (if is_leap y then 1 else 0)"
proof -
  from assms have "m = 1 \<or> m = 2 \<or> m = 3 \<or> m = 4 \<or> m = 5 \<or> m = 6 \<or> m = 7 \<or> m = 8
      \<or> m = 9 \<or> m = 10 \<or> m = 11 \<or> m = 12"
    by arith
  then show ?thesis
    by (elim disjE)
       (simp_all add: days_before_month_def days_in_month_def days_before_month_table_def
          days_in_month_table_def)
qed

lemma toordinal_bounds:
  assumes "valid_datetime dt"
  shows "1 \<le> toordinal dt" "toordinal dt \<le> max_ordinal"
proof -
  from assms have v: "1 \<le> dt_year dt" "dt_year dt \<le> 9999" "1 \<le> dt_month dt" "dt_month dt \<le> 12"
    "1 \<le> dt_day dt" "dt_day dt \<le> days_in_month (dt_year dt) (dt_month dt)"
    by (simp_all add: valid_datetime_def)
  show "1 \<le> toordinal dt"
    using v(5) by (simp add: toordinal_def ymd2ord_def)
  have "toordinal dt \<le> days_before_year (dt_year dt) + 365 + (if is_leap (dt_year dt) then 1 else 0)"
    using month_span [OF v(3,4), of "dt_year dt"] v(6) by (simp add: toordinal_def ymd2ord_def)
  also have "\<dots> = days_before_year (dt_year dt + 1)"
    by (simp only: days_before_year_Suc [OF v(1)])
  also have "\<dots> \<le> days_before_year 10000"
    using v(2) by (intro days_before_year_mono) simp_all
  also have "\<dots> = max_ordinal"
    by (simp add: days_before_year_def max_ordinal_def)
  finally show "toordinal dt \<le> max_ordinal" .
qed

lemma zero_pad_no_plus: "43 \<notin> set (zero_pad w n)"
proof
  assume "43 \<in> set (zero_pad w n)"
  then have "(43::nat) = 48 \<or> is_digit 43"
    by (auto simp: zero_pad_def dec_digits_digits)
  then show False
    by (simp add: is_digit_def)
qed

lemma py_replace_utc_suffix:
  "43 \<notin> set p \<Longrightarrow>
   py_replace (ascii ''+00:00'') (ascii ''Z'') (p @ ascii ''+00:00'') = p @ ascii ''Z''"
proof (induction p)
  case Nil
  have "py_replace (ascii ''+00:00'') (ascii ''Z'') [] = []"
    by (subst py_replace.simps) simp
  then show ?case
    by (subst py_replace.simps) (simp add: ascii_def)
next
  case (Cons c cs)
  then show ?case
    by (subst py_replace.simps) (auto simp: ascii_def)
qed

lemma to_iso8601_utc_format: "to_iso8601_utc dt = iso_seconds_z dt"
proof -
  let ?p = "zero_pad 4 (dt_year dt) @ ascii ''-'' @ zero_pad 2 (dt_month dt) @ ascii ''-''
     @ zero_pad 2 (dt_day dt) @ ascii ''T'' @ zero_pad 2 (dt_hour dt) @ ascii '':''
     @ zero_pad 2 (dt_minute dt) @ ascii '':'' @ zero_pad 2 (dt_second dt)"
  have "43 \<notin> set ?p"
    by (simp add: zero_pad_no_plus ascii_def)
  from py_replace_utc_suffix [OF this] show ?thesis
    by (simp add: to_iso8601_utc_def isoformat_def iso_seconds_z_def)
qed

lemma sub_days_in_range:
  assumes v: "valid_datetime now" and k: "1 \<le> k" "k < int (toordinal now)"
  shows "\<exists>lookback. sub_days now k = Inr lookback
           \<and> int (toordinal lookback) = int (toordinal now) - k
           \<and> valid_datetime lookback
           \<and> same_time_of_day lookback now"
proof -
  let ?o = "nat (int (toordinal now) - k)"
  have o: "1 \<le> ?o" "?o < toordinal now"
    using k by simp_all
  have top: "toordinal now \<le> max_ordinal"
    using v by (rule toordinal_bounds)
  then have small: "\<not> 999999999 < \<bar>k\<bar>"
    using k by (simp add: max_ordinal_def)
  obtain y m d where ymd: "ord2ymd ?o = (y, m, d)"
    by (cases "ord2ymd ?o")
  with ord2ymd_roundtrip [OF o(1)] have r: "ymd2ord y m d = ?o" "1 \<le> y" "1 \<le> m" "m \<le> 12"
    "1 \<le> d" "d \<le> days_in_month y m"
    by simp_all
  let ?lb = "now\<lparr>dt_year := y, dt_month := m, dt_day := d\<rparr>"
  have run: "sub_days now k = Inr ?lb"
    using small k top ymd by (simp add: sub_days_def Let_def)
  have ord: "toordinal ?lb = ?o"
    using r(1) by (simp add: toordinal_def)
  have y: "y \<le> 9999"
  proof (rule ccontr)
    assume "\<not> y \<le> 9999"
    then have "10000 \<le> y" by simp
    with r(2) have "days_before_year 10000 \<le> days_before_year y"
      by (intro days_before_year_mono) simp_all
    then have "max_ordinal \<le> days_before_year y"
      by (simp add: days_before_year_def max_ordinal_def)
    with r(1,5) o(2) top show False
      by (simp add: ymd2ord_def)
  qed
  have "valid_datetime ?lb"
    using v r y by (simp add: valid_datetime_def)
  moreover have "same_time_of_day ?lb now"
    by (simp add: same_time_of_day_def)
  moreover have "int (toordinal ?lb) = int (toordinal now) - k"
    using ord k by simp
  ultimately show ?thesis
    using run by blast
qed

lemma time_window_in_range:
  assumes "valid_datetime now" and "max 1 d < int (toordinal now)"
  shows "\<exists>lookback.
      time_window now d = Inr (max 1 d, lookback, to_iso8601_utc lookback, to_iso8601_utc now)
      \<and> int (toordinal lookback) = int (toordinal now) - max 1 d
      \<and> valid_datetime lookback
      \<and> same_time_of_day lookback now"
proof -
  have "1 \<le> max 1 d" by simp
  from sub_days_in_range [OF assms(1) this assms(2)] obtain lookback where
    "sub_days now (max 1 d) = Inr lookback"
    "int (toordinal lookback) = int (toordinal now) - max 1 d"
    "valid_datetime lookback" "same_time_of_day lookback now"
    by blast
  then show ?thesis
    by (simp add: time_window_def Let_def)
qed

lemma example_now_facts:
  "valid_datetime example_now" "toordinal example_now = 739924"
  by (simp_all add: valid_datetime_def example_now_def days_in_month_def days_in_month_table_def
      is_leap_def toordinal_def ymd2ord_def days_before_year_def days_before_month_def
      days_before_month_table_def)

lemma sub_days_too_far:
  "int (toordinal now) \<le> k \<Longrightarrow> sub_days now k = Inl OverflowError"
  by (simp add: sub_days_def Let_def)

lemma time_window_too_far:
  "int (toordinal now) \<le> max 1 d \<Longrightarrow> time_window now d = Inl OverflowError"
  by (simp add: time_window_def Let_def sub_days_too_far)

text \<open>
  Claim C8, as the code has it. Let \<open>now\<close> be a valid datetime and \<open>d\<close> a positive
  number of days. When \<open>d\<close> is smaller than the ordinal of \<open>now\<close>'s date, so that
  \<open>d\<close> days before \<open>now\<close> is not before 0001-01-01, the lookback used is \<open>d\<close>, the
  start of the window is a valid datetime whose date lies exactly \<open>d\<close> days before the
  date of \<open>now\<close>, with the same time of day, and \<open>since\<close> and \<open>until\<close> are rendered
  as \<open>YYYY-MM-DDTHH:MM:SSZ\<close>. For every larger \<open>d\<close> the subtraction raises
  \<open>OverflowError\<close> and no window is computed.
\<close>

theorem time_window_exact_days:
  assumes "valid_datetime now" and "0 < d"
  shows "(d < int (toordinal now) \<longrightarrow>
           (\<exists>lookback.
              time_window now d = Inr (d, lookback, to_iso8601_utc lookback, to_iso8601_utc now)
              \<and> int (toordinal lookback) = int (toordinal now) - d
              \<and> same_time_of_day lookback now
              \<and> valid_datetime lookback
              \<and> to_iso8601_utc lookback = iso_seconds_z lookback
              \<and> to_iso8601_utc now = iso_seconds_z now))
       \<and> (int (toordinal now) \<le> d \<longrightarrow> time_window now d = Inl OverflowError)"
proof (intro conjI impI)
  assume "d < int (toordinal now)"
  with time_window_in_range [of now d] assms
  show "\<exists>lookback.
      time_window now d = Inr (d, lookback, to_iso8601_utc lookback, to_iso8601_utc now)
      \<and> int (toordinal lookback) = int (toordinal now) - d
      \<and> same_time_of_day lookback now
      \<and> valid_datetime lookback
      \<and> to_iso8601_utc lookback = iso_seconds_z lookback
      \<and> to_iso8601_utc now = iso_seconds_z now"
    by (auto simp: to_iso8601_utc_format)
next
  assume "int (toordinal now) \<le> d"
  with assms(2) show "time_window now d = Inl OverflowError"
    using time_window_too_far [of now d] by simp
qed

theorem time_window_exact_days_witness:
  "\<exists>lookback.
      time_window example_now 180 =
        Inr (180, lookback, to_iso8601_utc lookback, to_iso8601_utc example_now)
      \<and> int (toordinal lookback) = 739744
      \<and> same_time_of_day lookback example_now
      \<and> valid_datetime lookback
      \<and> to_iso8601_utc lookback = iso_seconds_z lookback
      \<and> to_iso8601_utc example_now = iso_seconds_z example_now"
  using time_window_exact_days [of example_now 180]
  by (simp add: example_now_facts)

theorem time_window_overflow_counterexample:
  "time_window example_now 1000000 = Inl OverflowError"
  by (simp add: time_window_def sub_days_def example_now_facts)

text \<open>
  Claim C10, as the code has it. For every integer \<open>d\<close>, the lookback is
  \<open>max 1 d\<close>, so zero and negative values count as one day. Whenever that many days
  before a valid \<open>now\<close> is not before 0001-01-01, the window is computed and its start
  lies strictly before its end. Otherwise, for every lookback reaching further back,
  the run ends with \<open>OverflowError\<close>.
\<close>

theorem time_window_clamped:
  assumes "valid_datetime now"
  shows "(max 1 d < int (toordinal now) \<longrightarrow>
           (\<exists>lookback since until.
              time_window now d = Inr (max 1 d, lookback, since, until)
              \<and> (d \<le> 0 \<longrightarrow> max 1 d = 1)
              \<and> int (toordinal lookback) = int (toordinal now) - max 1 d
              \<and> toordinal lookback < toordinal now
              \<and> same_time_of_day lookback now
              \<and> since = to_iso8601_utc lookback \<and> until = to_iso8601_utc now))
       \<and> (int (toordinal now) \<le> max 1 d \<longrightarrow> time_window now d = Inl OverflowError)"
proof (intro conjI impI)
  assume "max 1 d < int (toordinal now)"
  from time_window_in_range [OF assms this] obtain lookback where
    l: "time_window now d = Inr (max 1 d, lookback, to_iso8601_utc lookback, to_iso8601_utc now)"
    "int (toordinal lookback) = int (toordinal now) - max 1 d"
    "same_time_of_day lookback now"
    by blast
  from l(2) have "toordinal lookback < toordinal now"
    by simp
  with l show "\<exists>lookback since until.
      time_window now d = Inr (max 1 d, lookback, since, until)
      \<and> (d \<le> 0 \<longrightarrow> max 1 d = 1)
      \<and> int (toordinal lookback) = int (toordinal now) - max 1 d
      \<and> toordinal lookback < toordinal now
      \<and> same_time_of_day lookback now
      \<and> since = to_iso8601_utc lookback \<and> until = to_iso8601_utc now"
    by auto
next
  assume "int (toordinal now) \<le> max 1 d"
  then show "time_window now d = Inl OverflowError"
    by (rule time_window_too_far)
qed

theorem time_window_clamped_witness:
  "\<exists>lookback since until.
      time_window example_now (- 5) = Inr (1, lookback, since, until)
      \<and> int (toordinal lookback) = 739923
      \<and> toordinal lookback < toordinal example_now
      \<and> same_time_of_day lookback example_now
      \<and> since = to_iso8601_utc lookback \<and> until = to_iso8601_utc example_now"
  using time_window_clamped [of example_now "- 5"]
  by (simp add: example_now_facts)

theorem time_window_clamped_overflow_counterexample:
  "time_window example_now 739924 = Inl OverflowError"
  by (simp add: time_window_def sub_days_def example_now_facts)

section \<open>Verification of the pipeline\<close>

text \<open>
  Claim C9. When the fetcher hands back an empty sequence, \<open>main\<close> ends without an
  error, the exporter is not called and the file system is what it was: no file is
  created, not even one holding the header. Conversely, a run that calls the exporter
  or changes the file system has fetched at least one incident.
\<close>

theorem main_no_incidents_no_artifact:
  "(\<forall>team_name v. fetch_stage ud env = Some (Inr (team_name, v)) \<longrightarrow> incidents v = [] \<longrightarrow>
      main ud env = Some \<lparr>out_files = env_files env, out_error = None, out_exported = None\<rparr>)
   \<and> (\<forall>out. main ud env = Some out \<longrightarrow>
        (out_exported out \<noteq> None \<or> out_files out \<noteq> env_files env) \<longrightarrow>
        (\<exists>team_name v. fetch_stage ud env = Some (Inr (team_name, v)) \<and> incidents v \<noteq> []))"
proof (intro conjI allI impI)
  fix team_name v
  assume "fetch_stage ud env = Some (Inr (team_name, v))" "incidents v = []"
  then show "main ud env = Some \<lparr>out_files = env_files env, out_error = None, out_exported = None\<rparr>"
    by (simp add: main_def export_stage_def)
next
  fix out
  assume run: "main ud env = Some out"
    and wrote: "out_exported out \<noteq> None \<or> out_files out \<noteq> env_files env"
  show "\<exists>team_name v. fetch_stage ud env = Some (Inr (team_name, v)) \<and> incidents v \<noteq> []"
  proof (cases "fetch_stage ud env")
    case None
    with run show ?thesis
      by (simp add: main_def)
  next
    case (Some r)
    show ?thesis
    proof (cases r)
      case (Inl e)
      with Some run wrote show ?thesis
        by (auto simp: main_def failed_def)
    next
      case (Inr p)
      obtain team_name v where p: "p = (team_name, v)"
        by (cases p)
      with Some Inr run wrote have "incidents v \<noteq> []"
        by (auto simp: main_def export_stage_def)
      with Some Inr p show ?thesis
        by simp
    qed
  qed
qed

lemma example_fetch_stage:
  "\<exists>v. fetch_stage example_unicode example_env = Some (Inr (example_team_id, v)) \<and> incidents v = []"
proof -
  have id: "is_pagerduty_team_id example_team_id"
    using example_team_id_valid by (auto simp: validate_team_id_def split: if_splits)
  have "max 1 1 < int (toordinal example_now)"
    by (simp add: example_now_facts)
  from time_window_in_range [OF example_now_facts(1) this] obtain lookback where
    w: "time_window example_now 1 =
      Inr (max 1 1, lookback, to_iso8601_utc lookback, to_iso8601_utc example_now)"
    by blast
  let ?since = "to_iso8601_utc lookback" and ?until = "to_iso8601_utc example_now"
  have "\<exists>v'. fetch_loop example_unicode incidents_api_empty example_team_id ?since ?until fetch_init =
        Some (Inr v')
      \<and> incidents v' = incidents fetch_init @ concat (map no_page [0..<Suc (0 + 0)])
      \<and> requests v' = requests fetch_init @
          map (\<lambda>i. page_query example_team_id ?since ?until (limit * i)) [0..<Suc (0 + 0)]"
    by (rule fetch_loop_run [where bodies = no_body and datas = empty_page])
       (simp_all add: incidents_api_empty_def no_body_def empty_page_def no_page_def dict_get_def
          fetch_init_def infinite_total_def)
  then obtain v where v:
    "fetch_loop example_unicode incidents_api_empty example_team_id ?since ?until fetch_init =
       Some (Inr v)"
    "incidents v = []"
    by (auto simp: fetch_init_def no_page_def)
  have "fetch_stage example_unicode example_env = Some (Inr (example_team_id, v))"
    using id example_team_id_valid w v(1)
    by (simp add: fetch_stage_def example_env_def given_team_name_def
        get_incidents_for_team_def example_team_id_def)
  with v(2) show ?thesis
    by blast
qed

theorem main_no_incidents_no_artifact_witness:
  "main example_unicode example_env =
     Some \<lparr>out_files = no_files, out_error = None, out_exported = None\<rparr>"
proof -
  from example_fetch_stage obtain v where
    "fetch_stage example_unicode example_env = Some (Inr (example_team_id, v))" "incidents v = []"
    by blast
  with main_no_incidents_no_artifact [of example_unicode example_env] show ?thesis
    by (simp add: example_env_def)
qed

end
